theory Spec2Isabelle
  imports Main "HOL-Library.AList" "HOL-Library.Char_ord" "HOL-Library.List_Lexorder"
begin

chapter \<open>The model\<close>

section \<open>JSON values and the JavaScript operations applied to them\<close>

text \<open>
  Request and response bodies are JSON documents.  Objects are association lists in
  insertion order (the order \<^verbatim>\<open>Object.keys\<close> reports for string keys), numbers are
  integers, and a string is the list of the bytes of its UTF-8 encoding.  Texts are
  well formed, without unpaired surrogates, so that a text starts with another exactly
  when its bytes start with the bytes of the other.  The value \<^verbatim>\<open>undefined\<close> is not a
  JSON value: an expression that may be undefined has type \<open>json option\<close> and \<open>None\<close> stands for it.
\<close>

datatype json =
    JNull
  | JBool bool
  | JNum int
  | JStr string
  | JArr "json list"
  | JObj "(string \<times> json) list"

text \<open>\<^verbatim>\<open>Boolean(v)\<close>, the test behind \<^verbatim>\<open>!v\<close>, \<^verbatim>\<open>v && e\<close> and \<^verbatim>\<open>v || e\<close>.\<close>

fun truthy :: "json \<Rightarrow> bool" where
  "truthy JNull = False"
| "truthy (JBool b) = b"
| "truthy (JNum n) = (n \<noteq> 0)"
| "truthy (JStr s) = (s \<noteq> [])"
| "truthy (JArr xs) = True"
| "truthy (JObj kvs) = True"

fun truthy_opt :: "json option \<Rightarrow> bool" where
  "truthy_opt None = False"
| "truthy_opt (Some v) = truthy v"

text \<open>
  \<^verbatim>\<open>v.k\<close> for a truthy \<open>v\<close> and an ordinary key \<open>k\<close>: only objects carry such keys;
  on a string, number, boolean or array the access yields \<^verbatim>\<open>undefined\<close>.
\<close>

fun member :: "json \<Rightarrow> string \<Rightarrow> json option" where
  "member (JObj kvs) k = map_of kvs k"
| "member v k = None"

text \<open>Optional chaining \<^verbatim>\<open>e?.k\<close>: \<^verbatim>\<open>undefined\<close> and \<^verbatim>\<open>null\<close> short-circuit.\<close>

fun chain :: "json option \<Rightarrow> string \<Rightarrow> json option" where
  "chain None k = None"
| "chain (Some v) k = member v k"

text \<open>\<^verbatim>\<open>e?.[0]\<close>: the first element of an array, the first character of a string,
  the member \<^verbatim>\<open>"0"\<close> of an object.\<close>

fun first_elem :: "json option \<Rightarrow> json option" where
  "first_elem (Some (JArr (x # xs))) = Some x"
| "first_elem (Some (JStr (c # cs))) = Some (JStr [c])"
| "first_elem (Some (JObj kvs)) = map_of kvs ''0''"
| "first_elem v = None"

fun is_string :: "json option \<Rightarrow> bool" where
  "is_string (Some (JStr s)) = True"
| "is_string v = False"

fun is_array :: "json option \<Rightarrow> bool" where
  "is_array (Some (JArr xs)) = True"
| "is_array v = False"

text \<open>\<^verbatim>\<open>typeof v === 'object'\<close> for a truthy \<open>v\<close>: arrays and objects.\<close>

fun is_object_like :: "json \<Rightarrow> bool" where
  "is_object_like (JArr xs) = True"
| "is_object_like (JObj kvs) = True"
| "is_object_like v = False"

text \<open>\<^verbatim>\<open>e === 'literal'\<close> for a possibly undefined \<open>e\<close>.\<close>

definition is_str :: "json option \<Rightarrow> string \<Rightarrow> bool" where
  "is_str v s = (v = Some (JStr s))"

subsection \<open>Numbers and strings\<close>

function string_of_nat :: "nat \<Rightarrow> string" where
  "string_of_nat n =
     (if n < 10 then [char_of (48 + n)]
      else string_of_nat (n div 10) @ [char_of (48 + n mod 10)])"
  by pat_completeness auto
termination
  by (relation "measure id") auto

declare string_of_nat.simps [simp del]

definition string_of_int :: "int \<Rightarrow> string" where
  "string_of_int i = (if i < 0 then CHR ''-'' # string_of_nat (nat (- i)) else string_of_nat (nat i))"

text \<open>\<^verbatim>\<open>xs.join(sep)\<close> on strings.\<close>

fun join :: "string \<Rightarrow> string list \<Rightarrow> string" where
  "join sep [] = []"
| "join sep [x] = x"
| "join sep (x # y # ys) = x @ sep @ join sep (y # ys)"

text \<open>
  \<^verbatim>\<open>String(v)\<close> and \<^verbatim>\<open>v.toString()\<close>.  An array prints its elements separated by
  commas, with \<^verbatim>\<open>null\<close> elements printed as the empty string.
\<close>

fun toString :: "json \<Rightarrow> string"
  and toString_elem :: "json \<Rightarrow> string" where
  "toString JNull = ''null''"
| "toString (JBool b) = (if b then ''true'' else ''false'')"
| "toString (JNum n) = string_of_int n"
| "toString (JStr s) = s"
| "toString (JArr xs) = join '','' (map toString_elem xs)"
| "toString (JObj kvs) = ''[object Object]''"
| "toString_elem v = (if v = JNull then [] else toString v)"

text \<open>
  \<^verbatim>\<open>s.length\<close> counts UTF-16 units: one for every character of the basic plane, two for
  every other character.  In UTF-8 a character starts at every byte that is not a
  continuation byte (\<open>0x80\<close> to \<open>0xBF\<close>), and the characters outside the basic plane
  are those whose first byte is \<open>0xF0\<close> or above.
\<close>

definition utf16_length :: "string \<Rightarrow> nat" where
  "utf16_length s =
     length (filter (\<lambda>c. \<not> (128 \<le> (of_char c :: nat) \<and> (of_char c :: nat) < 192)) s)
     + length (filter (\<lambda>c. 240 \<le> (of_char c :: nat)) s)"

text \<open>
  \<^verbatim>\<open>toUpperCase\<close> and \<^verbatim>\<open>toLowerCase\<close>.  On an ASCII text they map the letters \<open>a\<close> to
  \<open>z\<close> and keep every other character.  On any other text they follow the Unicode case
  mappings of the runtime, which are the first argument here.
\<close>

definition upper_char :: "char \<Rightarrow> char" where
  "upper_char c =
     (let n = (of_char c :: nat) in if 97 \<le> n \<and> n \<le> 122 then char_of (n - 32) else c)"

definition lower_char :: "char \<Rightarrow> char" where
  "lower_char c =
     (let n = (of_char c :: nat) in if 65 \<le> n \<and> n \<le> 90 then char_of (n + 32) else c)"

definition is_ascii :: "string \<Rightarrow> bool" where
  "is_ascii s = list_all (\<lambda>c. (of_char c :: nat) < 128) s"

definition toUpperCase :: "(string \<Rightarrow> string) \<Rightarrow> string \<Rightarrow> string" where
  "toUpperCase unicodeUpper s = (if is_ascii s then map upper_char s else unicodeUpper s)"

definition toLowerCase :: "(string \<Rightarrow> string) \<Rightarrow> string \<Rightarrow> string" where
  "toLowerCase unicodeLower s = (if is_ascii s then map lower_char s else unicodeLower s)"

text \<open>
  The white space of \<^verbatim>\<open>trim\<close> and of \<^verbatim>\<open>\s\<close>, each character by its UTF-8 bytes: tab,
  line feed, vertical tab, form feed, carriage return, space, \<open>U+00A0\<close>, \<open>U+1680\<close>,
  \<open>U+2000\<close> to \<open>U+200A\<close>, \<open>U+2028\<close>, \<open>U+2029\<close>, \<open>U+202F\<close>, \<open>U+205F\<close>, \<open>U+3000\<close> and
  \<open>U+FEFF\<close>.
\<close>

definition white_space :: "string list" where
  "white_space =
     [[CHR 0x09], [CHR 0x0A], [CHR 0x0B], [CHR 0x0C], [CHR 0x0D], [CHR 0x20],
      [CHR 0xC2, CHR 0xA0],
      [CHR 0xE1, CHR 0x9A, CHR 0x80],
      [CHR 0xE2, CHR 0x80, CHR 0x80], [CHR 0xE2, CHR 0x80, CHR 0x81], [CHR 0xE2, CHR 0x80, CHR 0x82],
      [CHR 0xE2, CHR 0x80, CHR 0x83], [CHR 0xE2, CHR 0x80, CHR 0x84], [CHR 0xE2, CHR 0x80, CHR 0x85],
      [CHR 0xE2, CHR 0x80, CHR 0x86], [CHR 0xE2, CHR 0x80, CHR 0x87], [CHR 0xE2, CHR 0x80, CHR 0x88],
      [CHR 0xE2, CHR 0x80, CHR 0x89], [CHR 0xE2, CHR 0x80, CHR 0x8A],
      [CHR 0xE2, CHR 0x80, CHR 0xA8], [CHR 0xE2, CHR 0x80, CHR 0xA9], [CHR 0xE2, CHR 0x80, CHR 0xAF],
      [CHR 0xE2, CHR 0x81, CHR 0x9F],
      [CHR 0xE3, CHR 0x80, CHR 0x80],
      [CHR 0xEF, CHR 0xBB, CHR 0xBF]]"

text \<open>The number of bytes of the character of \<open>ws\<close> that starts \<open>s\<close>, and 0 when none does.\<close>

definition starts_with_one_of :: "string list \<Rightarrow> string \<Rightarrow> nat" where
  "starts_with_one_of ws s =
     (case filter (\<lambda>w. w \<noteq> [] \<and> take (length w) s = w) ws of [] \<Rightarrow> 0 | w # _ \<Rightarrow> length w)"

fun strip_start :: "string list \<Rightarrow> string \<Rightarrow> string" where
  "strip_start ws [] = []"
| "strip_start ws (c # cs) =
     (let n = starts_with_one_of ws (c # cs)
      in if n = 0 then c # cs else strip_start ws (drop n (c # cs)))"

text \<open>\<^verbatim>\<open>s.trim()\<close>; the end of the text is stripped on the reversed bytes.\<close>

definition trim :: "string \<Rightarrow> string" where
  "trim s = rev (strip_start (map rev white_space) (rev (strip_start white_space s)))"

text \<open>\<^verbatim>\<open>s.replace(/\s+/g, '')\<close>\<close>

fun remove_white_space :: "string \<Rightarrow> string" where
  "remove_white_space [] = []"
| "remove_white_space (c # cs) =
     (let n = starts_with_one_of white_space (c # cs)
      in if n = 0 then c # remove_white_space cs else remove_white_space (drop n (c # cs)))"

section \<open>Converting a backend payload to Anthropic content\<close>

text \<open>
  \<^verbatim>\<open>JSON.parse\<close> belongs to the runtime; the functions that call it take it as the
  argument \<open>P\<close>, with \<open>None\<close> for a \<^verbatim>\<open>SyntaxError\<close>.  \<^verbatim>\<open>buildToolUseId\<close> draws random
  bytes; \<open>G k\<close> is the identifier produced by the \<open>k\<close>-th call.
\<close>

definition extractGeminiParts :: "json option \<Rightarrow> json list" where
  "extractGeminiParts payload =
     (case chain (chain (first_elem (chain payload ''candidates'')) ''content'') ''parts'' of
        Some (JArr parts) \<Rightarrow> parts
      | _ \<Rightarrow> [])"

definition normalizeToolUseInput :: "(string \<Rightarrow> json option) \<Rightarrow> json option \<Rightarrow> json" where
  "normalizeToolUseInput P input =
     (case input of
        None \<Rightarrow> JObj []
      | Some JNull \<Rightarrow> JObj []
      | Some (JArr xs) \<Rightarrow> JArr xs
      | Some (JObj kvs) \<Rightarrow> JObj kvs
      | Some (JStr s) \<Rightarrow>
          (let trimmed = trim s in
           if trimmed = [] then JObj []
           else (case P trimmed of
                   None \<Rightarrow> JObj []
                 | Some parsed \<Rightarrow> if truthy parsed \<and> is_object_like parsed then parsed else JObj []))
      | Some v \<Rightarrow> JObj [])"

text \<open>\<^verbatim>\<open>a || b\<close> on possibly undefined operands.\<close>

definition or_else :: "json option \<Rightarrow> json option \<Rightarrow> json option" where
  "or_else a b = (if truthy_opt a then a else b)"

definition resolveSignature :: "json \<Rightarrow> json" where
  "resolveSignature part =
     (if \<not> truthy part then JStr []
      else (case or_else (member part ''thoughtSignature'')
                  (or_else (member part ''thought_signature'')
                    (or_else (member part ''signature'') (Some (JStr [])))) of
              Some v \<Rightarrow> v
            | None \<Rightarrow> JStr []))"

definition flushText :: "json list \<times> string \<Rightarrow> json list \<times> string" where
  "flushText cs =
     (case cs of (content, currentText) \<Rightarrow>
        if currentText = [] then (content, currentText)
        else (content @ [JObj [(''type'', JStr ''text''), (''text'', JStr currentText)]], []))"

definition pushThinkingBlock :: "json \<Rightarrow> json \<Rightarrow> json list \<Rightarrow> json list" where
  "pushThinkingBlock thinkingText signature content =
     (let normalizedThinking = (case thinkingText of JStr s \<Rightarrow> s | _ \<Rightarrow> []);
          normalizedSignature = (case signature of JStr s \<Rightarrow> s | _ \<Rightarrow> [])
      in if normalizedThinking = [] \<and> normalizedSignature = [] then content
         else content @
           [JObj ([(''type'', JStr ''thinking''), (''thinking'', JStr normalizedThinking)] @
                  (if normalizedSignature \<noteq> [] then [(''signature'', JStr normalizedSignature)] else []))])"

definition is_thinking_block :: "json \<Rightarrow> bool" where
  "is_thinking_block b =
     (is_str (member b ''type'') ''thinking'' \<or> is_str (member b ''type'') ''redacted_thinking'')"

text \<open>The loop over the parts; the state is \<open>content\<close>, \<open>currentText\<close> and the number of
  identifiers drawn so far.\<close>

fun convert_parts ::
  "(string \<Rightarrow> json option) \<Rightarrow> (nat \<Rightarrow> string) \<Rightarrow> json list \<Rightarrow> json list \<times> string \<Rightarrow> nat
     \<Rightarrow> (json list \<times> string) \<times> nat" where
  "convert_parts P G [] cs k = (cs, k)"
| "convert_parts P G (part # parts) cs k =
     (if member part ''thought'' = Some (JBool True) then
        (case flushText cs of (content, currentText) \<Rightarrow>
           convert_parts P G parts
             (pushThinkingBlock
                (if is_string (member part ''text'') then the (member part ''text'') else JStr [])
                (resolveSignature part) content, currentText) k)
      else if is_string (member part ''text'') \<and> truthy_opt (member part ''text'') then
        (case cs of (content, currentText) \<Rightarrow>
           convert_parts P G parts (content, currentText @ toString (the (member part ''text''))) k)
      else
        (let functionCall = member part ''functionCall'' in
         if truthy_opt (chain functionCall ''name'') then
           (case flushText cs of (content, currentText) \<Rightarrow>
              let functionCallSignature = resolveSignature part;
                  content1 = (if truthy functionCallSignature
                              then pushThinkingBlock (JStr []) functionCallSignature content
                              else content);
                  has_id = (is_string (chain functionCall ''id'') \<and> truthy_opt (chain functionCall ''id''));
                  toolUseId = (if has_id then the (chain functionCall ''id'') else JStr (G k))
              in convert_parts P G parts
                   (content1 @
                      [JObj [(''type'', JStr ''tool_use''), (''id'', toolUseId),
                             (''name'', the (chain functionCall ''name'')),
                             (''input'', normalizeToolUseInput P (chain functionCall ''args''))]],
                    currentText)
                   (if has_id then k else Suc k))
         else convert_parts P G parts cs k))"

definition convertGeminiPayloadToAnthropicContent ::
  "(string \<Rightarrow> json option) \<Rightarrow> (nat \<Rightarrow> string) \<Rightarrow> nat \<Rightarrow> json option \<Rightarrow> json list \<times> nat" where
  "convertGeminiPayloadToAnthropicContent P G k payload =
     (case convert_parts P G (extractGeminiParts payload) ([], []) k of (cs, k') \<Rightarrow>
        let content = fst (flushText cs);
            thinkingBlocks = filter (\<lambda>b. truthy b \<and> is_thinking_block b) content
        in if thinkingBlocks \<noteq> [] \<and> \<not> is_thinking_block (hd content)
           then (thinkingBlocks @ filter (\<lambda>b. truthy b \<and> \<not> is_thinking_block b) content, k')
           else (content, k'))"

section \<open>Stop reason of a non-streaming response\<close>

text \<open>
  \<^verbatim>\<open>(finishReason || '').toString().toUpperCase()\<close> compared with \<^verbatim>\<open>MAX_TOKENS\<close>.  The
  finish reason may be any value: an array prints its elements, an object prints
  \<^verbatim>\<open>[object Object]\<close>.  \<open>unicodeUpper\<close> is the case mapping of the runtime on texts that
  are not ASCII.
\<close>

definition mapGeminiFinishReasonToAnthropicStopReason ::
  "(string \<Rightarrow> string) \<Rightarrow> json option \<Rightarrow> string" where
  "mapGeminiFinishReasonToAnthropicStopReason unicodeUpper finishReason =
     (let normalized =
            toUpperCase unicodeUpper
              (case or_else finishReason (Some (JStr [])) of Some v \<Rightarrow> toString v | None \<Rightarrow> [])
      in if normalized = ''MAX_TOKENS'' then ''max_tokens'' else ''end_turn'')"




text \<open>
  Closed examples need a parser and an identifier supply.  \<open>no_parse\<close> reports a syntax
  error for every text; it is only used where the example parses no text.
\<close>

definition no_parse :: "string \<Rightarrow> json option" where
  "no_parse s = None"

definition numbered_ids :: "nat \<Rightarrow> string" where
  "numbered_ids k = ''toolu_'' @ string_of_nat k"


section \<open>The signature cache\<close>

text \<open>
  The module keeps four process-wide \<^verbatim>\<open>Map\<close>s.  A \<^verbatim>\<open>Map\<close> is an association list in
  insertion order: \<^verbatim>\<open>set\<close> on a present key replaces the value in place and appends
  otherwise (\<open>AList.update\<close>), \<^verbatim>\<open>get\<close> is \<open>map_of\<close>, \<^verbatim>\<open>delete\<close> is \<open>AList.delete\<close>
  and \<^verbatim>\<open>size\<close> is the length.  \<^verbatim>\<open>Date.now()\<close> is the argument \<open>now\<close>, in milliseconds.
\<close>

definition SIGNATURE_CACHE_TTL_MS :: int where
  "SIGNATURE_CACHE_TTL_MS = 2 * 60 * 60 * 1000"

definition MIN_SIGNATURE_LENGTH :: nat where
  "MIN_SIGNATURE_LENGTH = 50"

definition TEXT_HASH_LENGTH :: nat where
  "TEXT_HASH_LENGTH = 16"

definition TOOL_CACHE_LIMIT :: nat where
  "TOOL_CACHE_LIMIT = 500"

definition FAMILY_CACHE_LIMIT :: nat where
  "FAMILY_CACHE_LIMIT = 200"

definition SESSION_CACHE_LIMIT :: nat where
  "SESSION_CACHE_LIMIT = 1000"

definition MAX_ENTRIES_PER_SESSION :: nat where
  "MAX_ENTRIES_PER_SESSION = 100"

record stamped =
  timestamp :: int

record sig_entry = stamped +
  signature :: string

record family_entry = stamped +
  modelFamily :: string

record signature_caches =
  signatureCache :: "(string \<times> (string \<times> sig_entry) list) list"
  toolSignatureCache :: "(string \<times> sig_entry) list"
  modelFamilyCache :: "(string \<times> family_entry) list"
  sessionLatestSignatureCache :: "(string \<times> sig_entry) list"

text \<open>\<open>sha256_hex\<close> stands for the hexadecimal SHA-256 digest computed by the
  \<^verbatim>\<open>crypto\<close> module.\<close>

definition hashText :: "(string \<Rightarrow> string) \<Rightarrow> string \<Rightarrow> string" where
  "hashText sha256_hex text = (if text = [] then [] else take TEXT_HASH_LENGTH (sha256_hex text))"

definition isExpired :: "int \<Rightarrow> int \<Rightarrow> bool" where
  "isExpired now ts = (now - ts > SIGNATURE_CACHE_TTL_MS)"

definition isValidSignature :: "string \<Rightarrow> bool" where
  "isValidSignature sig = (utf16_length sig \<ge> MIN_SIGNATURE_LENGTH)"

text \<open>Deleting a list of keys one after the other.\<close>

definition delete_keys :: "string list \<Rightarrow> (string \<times> 'e) list \<Rightarrow> (string \<times> 'e) list" where
  "delete_keys ks cache = fold AList.delete ks cache"

definition cleanupCache ::
  "int \<Rightarrow> (string \<times> 'a stamped_scheme) list \<Rightarrow> nat \<Rightarrow> (string \<times> 'a stamped_scheme) list" where
  "cleanupCache now cache limit =
     (if length cache \<le> limit then cache
      else
        let toDelete = map fst (filter (\<lambda>(key, entry). isExpired now (timestamp entry)) cache);
            cache1 = delete_keys toDelete cache
        in if length cache1 > limit then
             let entries = sort_key (\<lambda>(key, entry). timestamp entry) cache1;
                 overflow = length cache1 - limit
             in delete_keys (map fst (take overflow entries)) cache1
           else cache1)"

subsection \<open>Layer 1: tool identifier to signature\<close>

definition cacheToolSignature :: "int \<Rightarrow> string \<Rightarrow> string \<Rightarrow> signature_caches \<Rightarrow> signature_caches" where
  "cacheToolSignature now toolId sig c =
     (if toolId = [] \<or> sig = [] then c
      else if \<not> isValidSignature sig then c
      else c\<lparr>toolSignatureCache :=
               cleanupCache now
                 (AList.update toolId \<lparr>timestamp = now, signature = sig\<rparr> (toolSignatureCache c))
                 TOOL_CACHE_LIMIT\<rparr>)"

definition getToolSignature :: "int \<Rightarrow> string \<Rightarrow> signature_caches \<Rightarrow> string option \<times> signature_caches" where
  "getToolSignature now toolId c =
     (if toolId = [] then (None, c)
      else case map_of (toolSignatureCache c) toolId of
             None \<Rightarrow> (None, c)
           | Some entry \<Rightarrow>
               if isExpired now (timestamp entry)
               then (None, c\<lparr>toolSignatureCache := AList.delete toolId (toolSignatureCache c)\<rparr>)
               else (Some (signature entry), c))"

subsection \<open>Layer 2: signature to model family\<close>

definition cacheSignatureFamily :: "int \<Rightarrow> string \<Rightarrow> string \<Rightarrow> signature_caches \<Rightarrow> signature_caches" where
  "cacheSignatureFamily now sig family c =
     (if sig = [] \<or> family = [] then c
      else if \<not> isValidSignature sig then c
      else c\<lparr>modelFamilyCache :=
               cleanupCache now
                 (AList.update sig \<lparr>timestamp = now, modelFamily = family\<rparr> (modelFamilyCache c))
                 FAMILY_CACHE_LIMIT\<rparr>)"

definition getSignatureFamily :: "int \<Rightarrow> string \<Rightarrow> signature_caches \<Rightarrow> string option \<times> signature_caches" where
  "getSignatureFamily now sig c =
     (if sig = [] then (None, c)
      else case map_of (modelFamilyCache c) sig of
             None \<Rightarrow> (None, c)
           | Some entry \<Rightarrow>
               if isExpired now (timestamp entry)
               then (None, c\<lparr>modelFamilyCache := AList.delete sig (modelFamilyCache c)\<rparr>)
               else (Some (modelFamily entry), c))"

subsection \<open>Layer 3: session to latest signature\<close>

definition cacheSessionSignature :: "int \<Rightarrow> string \<Rightarrow> string \<Rightarrow> signature_caches \<Rightarrow> signature_caches" where
  "cacheSessionSignature now sessionId sig c =
     (if sessionId = [] \<or> sig = [] then c
      else if \<not> isValidSignature sig then c
      else
        let existing = map_of (sessionLatestSignatureCache c) sessionId;
            shouldStore =
              (case existing of
                 None \<Rightarrow> True
               | Some e \<Rightarrow>
                   isExpired now (timestamp e) \<or> utf16_length sig > utf16_length (signature e))
        in if shouldStore then
             c\<lparr>sessionLatestSignatureCache :=
                 cleanupCache now
                   (AList.update sessionId \<lparr>timestamp = now, signature = sig\<rparr>
                      (sessionLatestSignatureCache c))
                   SESSION_CACHE_LIMIT\<rparr>
           else c)"

definition getSessionSignature :: "int \<Rightarrow> string \<Rightarrow> signature_caches \<Rightarrow> string option \<times> signature_caches" where
  "getSessionSignature now sessionId c =
     (if sessionId = [] then (None, c)
      else case map_of (sessionLatestSignatureCache c) sessionId of
             None \<Rightarrow> (None, c)
           | Some entry \<Rightarrow>
               if isExpired now (timestamp entry)
               then (None, c\<lparr>sessionLatestSignatureCache :=
                                AList.delete sessionId (sessionLatestSignatureCache c)\<rparr>)
               else (Some (signature entry), c))"


subsection \<open>The original surface: session and text hash to signature\<close>

definition cacheSignature ::
  "(string \<Rightarrow> string) \<Rightarrow> int \<Rightarrow> string \<Rightarrow> string \<Rightarrow> string \<Rightarrow> signature_caches \<Rightarrow> signature_caches" where
  "cacheSignature sha256_hex now sessionId thinkingText sig c =
     (if sessionId = [] \<or> thinkingText = [] \<or> sig = [] then c
      else if \<not> isValidSignature sig then c
      else
        let created = (case map_of (signatureCache c) sessionId of
                         None \<Rightarrow> AList.update sessionId [] (signatureCache c)
                       | Some m \<Rightarrow> signatureCache c);
            sessionCache = (case map_of created sessionId of None \<Rightarrow> [] | Some m \<Rightarrow> m);
            textHash = hashText sha256_hex thinkingText
        in if textHash = [] then c\<lparr>signatureCache := created\<rparr>
           else
             let evicted =
                   (if length sessionCache \<ge> MAX_ENTRIES_PER_SESSION then
                      let entries = sort_key (\<lambda>(key, entry). timestamp entry) sessionCache;
                          toRemove = max 1 (length entries div 4)
                      in delete_keys (map fst (take toRemove entries)) sessionCache
                    else sessionCache);
                 stored = AList.update textHash \<lparr>timestamp = now, signature = sig\<rparr> evicted
             in cacheSessionSignature now sessionId sig
                  (c\<lparr>signatureCache := AList.update sessionId stored created\<rparr>))"

definition getCachedSignature ::
  "(string \<Rightarrow> string) \<Rightarrow> int \<Rightarrow> string \<Rightarrow> string \<Rightarrow> signature_caches
     \<Rightarrow> string option \<times> signature_caches" where
  "getCachedSignature sha256_hex now sessionId thinkingText c =
     (if sessionId = [] \<or> thinkingText = [] then (None, c)
      else case map_of (signatureCache c) sessionId of
             None \<Rightarrow> (None, c)
           | Some sessionCache \<Rightarrow>
               let textHash = hashText sha256_hex thinkingText in
               if textHash = [] then (None, c)
               else case map_of sessionCache textHash of
                      None \<Rightarrow> (None, c)
                    | Some entry \<Rightarrow>
                        if isExpired now (timestamp entry)
                        then (None, c\<lparr>signatureCache :=
                                         AList.update sessionId (AList.delete textHash sessionCache)
                                           (signatureCache c)\<rparr>)
                        else (Some (signature entry), c))"

text \<open>Concrete cache contents for the closed examples.  \<open>fixed_digest\<close> is a digest
  function with the shape of a SHA-256 digest in hexadecimal (64 digits).\<close>

definition fixed_digest :: "string \<Rightarrow> string" where
  "fixed_digest text = replicate 64 (CHR ''0'')"

definition empty_caches :: signature_caches where
  "empty_caches =
     \<lparr>signatureCache = [], toolSignatureCache = [], modelFamilyCache = [],
      sessionLatestSignatureCache = []\<rparr>"

definition old_entry :: sig_entry where
  "old_entry = \<lparr>timestamp = 0, signature = replicate 60 (CHR ''a'')\<rparr>"

definition stale_caches :: signature_caches where
  "stale_caches =
     \<lparr>signatureCache = [(''session-1'', [(replicate 16 (CHR ''0''), old_entry)])],
      toolSignatureCache = [(''toolu_1'', old_entry)],
      modelFamilyCache = [(replicate 60 (CHR ''a''), \<lparr>timestamp = 0, modelFamily = ''gemini-2.5''\<rparr>)],
      sessionLatestSignatureCache = [(''session-1'', old_entry)]\<rparr>"

section \<open>Model cooldown and the fail-fast check of the transport\<close>

text \<open>
  \<^verbatim>\<open>modelUnavailableCooldowns\<close> is a \<^verbatim>\<open>Map\<close> from the trimmed model name to the instant
  until which the model is cooling and the reason.  No function iterates over it, so it
  is a partial function.
\<close>

record reasoned =
  reason :: string

record cooldown_entry = reasoned +
  untilMs :: int

record cooldown_info = reasoned +
  remainingMs :: int

type_synonym cooldowns = "string \<Rightarrow> cooldown_entry option"

definition no_cooldown :: cooldown_info where
  "no_cooldown = \<lparr>reason = [], remainingMs = 0\<rparr>"

definition getModelCooldownInfo :: "int \<Rightarrow> string \<Rightarrow> cooldowns \<Rightarrow> cooldown_info \<times> cooldowns" where
  "getModelCooldownInfo now model cds =
     (let key = trim model in
      if key = [] then (no_cooldown, cds)
      else case cds key of
             None \<Rightarrow> (no_cooldown, cds)
           | Some entry \<Rightarrow>
               if untilMs entry = 0 then (no_cooldown, cds)
               else
                 let remaining = untilMs entry - now in
                 if remaining \<le> 0 then (no_cooldown, cds(key := None))
                 else (\<lparr>reason = reason entry, remainingMs = remaining\<rparr>, cds))"

definition setModelCooldown :: "int \<Rightarrow> string \<Rightarrow> int \<Rightarrow> string \<Rightarrow> cooldowns \<Rightarrow> cooldowns" where
  "setModelCooldown now model cooldownMs why cds =
     (let key = trim model in
      if key = [] then cds
      else
        let duration = (if cooldownMs > 0 then cooldownMs else 0) in
        if duration = 0 then cds
        else cds(key \<mapsto> \<lparr>reason = why, untilMs = now + duration\<rparr>))"

text \<open>The error objects thrown by the transport, as far as callers read them: \<^verbatim>\<open>response.status\<close>,
  \<^verbatim>\<open>code\<close>, \<^verbatim>\<open>message\<close>, \<^verbatim>\<open>response.data\<close> and \<^verbatim>\<open>response.headers\<close>.\<close>

record axios_error =
  err_status :: int
  err_code :: string
  err_message :: string
  err_data :: json
  err_headers :: "(string \<times> string) list"

text \<open>\<^verbatim>\<open>Math.ceil(ms / 1000)\<close> on an integer number of milliseconds.\<close>

definition ceil_seconds :: "int \<Rightarrow> int" where
  "ceil_seconds ms = (ms + 999) div 1000"

definition cooldown_error :: "cooldown_info \<Rightarrow> axios_error" where
  "cooldown_error cooldownInfo =
     (let retryAfterSeconds = max 1 (ceil_seconds (remainingMs cooldownInfo));
          cooldownReason = trim (reason cooldownInfo);
          cooldownMessage =
            (if cooldownReason = ''MODEL_CAPACITY_EXHAUSTED''
             then ''Model capacity exhausted (cooldown '' @ string_of_int retryAfterSeconds @ ''s)''
             else ''The requested model is currently unavailable (cooldown '' @
                  string_of_int retryAfterSeconds @ ''s)'')
      in \<lparr>err_status = 429, err_code = ''ANTIGRAVITY_MODEL_COOLDOWN'', err_message = cooldownMessage,
          err_data = JObj [(''error'', JObj [(''message'', JStr cooldownMessage),
                                         (''reason'', if cooldownReason = [] then JNull else JStr cooldownReason)])],
          err_headers = [(''retry-after'', string_of_int retryAfterSeconds)]\<rparr>)"

text \<open>
  \<^verbatim>\<open>request\<close>.  The envelope is built first, which fixes the upstream \<open>model\<close>; then the
  cooldown map is consulted.  Everything after that check (the loop over the endpoint
  candidates with its fallback and retry rules) is the argument \<open>attemptRequest\<close>: from
  the cooldown map it yields the outcome, the list of URLs it posted to, and the cooldown
  map it leaves.  The result of \<open>request\<close> has the same three components.
\<close>

definition request ::
  "int \<Rightarrow> string \<Rightarrow> cooldowns \<Rightarrow> (cooldowns \<Rightarrow> (axios_error + 'r) \<times> string list \<times> cooldowns)
     \<Rightarrow> (axios_error + 'r) \<times> string list \<times> cooldowns" where
  "request now model cds attemptRequest =
     (case getModelCooldownInfo now model cds of (cooldownInfo, cds1) \<Rightarrow>
        if remainingMs cooldownInfo > 0 then (Inl (cooldown_error cooldownInfo), [], cds1)
        else attemptRequest cds1)"

text \<open>A network phase for the closed examples: one successful post.\<close>

definition one_post :: "cooldowns \<Rightarrow> (axios_error + string) \<times> string list \<times> cooldowns" where
  "one_post cds = (Inr ''ok'', [''https://daily-cloudcode-pa.googleapis.com/v1internal:generateContent''], cds)"

definition cooling :: cooldowns where
  "cooling = Map.empty(''gemini-3-pro'' \<mapsto> \<lparr>reason = ''MODEL_CAPACITY_EXHAUSTED'', untilMs = 20500\<rparr>)"

section \<open>Normalising the thinking configuration of an envelope\<close>

text \<open>
  \<^verbatim>\<open>getAntigravityModelMetadata\<close> and \<^verbatim>\<open>normalizeAntigravityModelInput\<close> live in a module
  of their own; their results for the model at hand are the arguments \<open>metadata\<close> and
  \<open>normalizedModel\<close>.  A numeric field is \<open>Some n\<close> when \<^verbatim>\<open>Number.isFinite\<close> accepts it (for
  \<^verbatim>\<open>thinkingBudget\<close>: when \<^verbatim>\<open>Number(...)\<close> is finite, \<open>n\<close> being its integer part) and
  \<open>None\<close> otherwise.  Token counts are integers.
\<close>

record thinking_range =
  thinking_min :: "int option"
  thinking_max :: "int option"

record model_metadata =
  thinking :: "thinking_range option"
  maxCompletionTokens :: "int option"

record thinking_config =
  thinkingBudget :: "int option"
  thinkingLevel :: "string option"
  include_thoughts :: bool

record generation_config =
  thinkingConfig :: "thinking_config option"
  maxOutputTokens :: "int option"

fun startsWith :: "string \<Rightarrow> string \<Rightarrow> bool" where
  "startsWith s [] = True"
| "startsWith [] (p # ps) = False"
| "startsWith (c # cs) (p # ps) = (c = p \<and> startsWith cs ps)"

text \<open>\<^verbatim>\<open>!effectiveMax && metadata.maxCompletionTokens\<close>: the default of the model is used
  when the configuration has no usable maximum.\<close>

definition setDefaultMax :: "model_metadata \<Rightarrow> generation_config \<Rightarrow> bool" where
  "setDefaultMax md gc =
     ((maxOutputTokens gc = None \<or> maxOutputTokens gc = Some 0)
      \<and> maxCompletionTokens md \<noteq> None \<and> maxCompletionTokens md \<noteq> Some 0)"

definition effectiveMax :: "model_metadata \<Rightarrow> generation_config \<Rightarrow> int option" where
  "effectiveMax md gc = (if setDefaultMax md gc then maxCompletionTokens md else maxOutputTokens gc)"

definition normalizeAntigravityThinking ::
  "string \<Rightarrow> model_metadata option \<Rightarrow> generation_config \<Rightarrow> generation_config" where
  "normalizeAntigravityThinking normalizedModel metadata generationConfig =
     (case thinkingConfig generationConfig of
        None \<Rightarrow> generationConfig
      | Some tc0 \<Rightarrow>
          let tc = (if thinkingLevel tc0 \<noteq> None \<and> thinkingLevel tc0 \<noteq> Some []
                       \<and> \<not> startsWith normalizedModel ''gemini-3-''
                    then tc0\<lparr>thinkingLevel := None\<rparr> else tc0)
          in case metadata of
               None \<Rightarrow> generationConfig\<lparr>thinkingConfig := Some tc\<rparr>
             | Some md \<Rightarrow>
                 (case thinking md of
                    None \<Rightarrow> generationConfig\<lparr>thinkingConfig := None\<rparr>
                  | Some rng \<Rightarrow>
                      (case thinkingBudget tc of
                         None \<Rightarrow> generationConfig\<lparr>thinkingConfig := Some tc\<rparr>
                       | Some budgetRaw \<Rightarrow>
                           let budget1 = (case thinking_max rng of
                                            Some maxBudget \<Rightarrow> if budgetRaw > maxBudget then maxBudget else budgetRaw
                                          | None \<Rightarrow> budgetRaw);
                               budget = (case effectiveMax md generationConfig of
                                           Some e \<Rightarrow> if e \<noteq> 0 \<and> budget1 \<ge> e then max 0 (e - 1) else budget1
                                         | None \<Rightarrow> budget1)
                           in if (case thinking_min rng of
                                    Some minBudget \<Rightarrow> budget \<ge> 0 \<and> budget < minBudget
                                  | None \<Rightarrow> False)
                              then generationConfig\<lparr>thinkingConfig := None\<rparr>
                              else generationConfig
                                     \<lparr>thinkingConfig := Some (tc\<lparr>thinkingBudget := Some budget\<rparr>),
                                      maxOutputTokens :=
                                        (if setDefaultMax md generationConfig
                                         then effectiveMax md generationConfig
                                         else maxOutputTokens generationConfig)\<rparr>)))"

text \<open>A thinking model for the closed examples: budgets from 1024 to 32768, at most 65536
  output tokens.\<close>

definition flash_metadata :: model_metadata where
  "flash_metadata =
     \<lparr>thinking = Some \<lparr>thinking_min = Some 1024, thinking_max = Some 32768\<rparr>,
      maxCompletionTokens = Some 65536\<rparr>"

definition config_with_budget :: "int \<Rightarrow> int option \<Rightarrow> generation_config" where
  "config_with_budget b m =
     \<lparr>thinkingConfig = Some \<lparr>thinkingBudget = Some b, thinkingLevel = None, include_thoughts = True\<rparr>,
      maxOutputTokens = m\<rparr>"

section \<open>Sanitising the content blocks of a tool result\<close>

definition MAX_ANTIGRAVITY_TOOL_RESULT_CHARS :: int where
  "MAX_ANTIGRAVITY_TOOL_RESULT_CHARS = 200000"

definition IMAGE_OMITTED_NOTE :: json where
  "IMAGE_OMITTED_NOTE =
     JObj [(''type'', JStr ''text''),
           (''text'', JStr ''[image omitted to fit Antigravity prompt limits; use the file path in the previous text block]'')]"

text \<open>The test of the loop for an image carried as base64 data.\<close>

definition is_base64_image :: "json \<Rightarrow> bool" where
  "is_base64_image block =
     (is_str (member block ''type'') ''image''
      \<and> is_str (chain (member block ''source'') ''type'') ''base64''
      \<and> is_string (chain (member block ''source'') ''data''))"

text \<open>\<^verbatim>\<open>{ ...block, text }\<close>\<close>

fun with_text :: "json \<Rightarrow> string \<Rightarrow> json" where
  "with_text (JObj kvs) t = JObj (AList.update ''text'' (JStr t) kvs)"
| "with_text v t = v"

text \<open>
  The loop of \<^verbatim>\<open>sanitizeToolResultBlocksForAntigravity\<close> with its three variables.  The
  text compaction \<^verbatim>\<open>compactToolResultTextForAntigravity\<close> is the argument \<open>compact\<close>: the loop
  only stores the text it returns and adds its length to \<open>usedChars\<close>.  A \<^verbatim>\<open>break\<close> ends
  the recursion.
\<close>

fun sanitize_loop ::
  "(string \<Rightarrow> int \<Rightarrow> string) \<Rightarrow> json list \<Rightarrow> json list \<Rightarrow> int \<Rightarrow> bool \<Rightarrow> json list \<times> bool" where
  "sanitize_loop compact [] cleaned usedChars removedImage = (cleaned, removedImage)"
| "sanitize_loop compact (block # blocks) cleaned usedChars removedImage =
     (if \<not> truthy block \<or> \<not> is_object_like block then
        sanitize_loop compact blocks cleaned usedChars removedImage
      else if is_base64_image block then
        sanitize_loop compact blocks cleaned usedChars True
      else if is_str (member block ''type'') ''text'' \<and> is_string (member block ''text'') then
        (let remaining = MAX_ANTIGRAVITY_TOOL_RESULT_CHARS - usedChars in
         if remaining \<le> 0 then (cleaned, removedImage)
         else
           let text = compact (toString (the (member block ''text''))) remaining in
           sanitize_loop compact blocks (cleaned @ [with_text block text])
             (usedChars + int (utf16_length text)) removedImage)
      else
        (if usedChars + 100 \<ge> MAX_ANTIGRAVITY_TOOL_RESULT_CHARS then (cleaned @ [block], removedImage)
         else sanitize_loop compact blocks (cleaned @ [block]) (usedChars + 100) removedImage))"

definition sanitizeToolResultBlocksForAntigravity ::
  "(string \<Rightarrow> int \<Rightarrow> string) \<Rightarrow> json list \<Rightarrow> json list" where
  "sanitizeToolResultBlocksForAntigravity compact blocks =
     (case sanitize_loop compact blocks [] 0 False of (cleaned, removedImage) \<Rightarrow>
        if removedImage then cleaned @ [IMAGE_OMITTED_NOTE] else cleaned)"

text \<open>
  The loop read block by block.  A block that is not an object is skipped, a base64 image
  is removed, and any other block is kept: a text block with its compacted text, charged
  with the length of that text, another block as it is, charged with 100 characters.
  \<open>visit\<close> treats a whole array that way, with no regard to the size limit, and gives
  the kept blocks and the characters used.
\<close>

definition is_skipped :: "json \<Rightarrow> bool" where
  "is_skipped block = (\<not> truthy block \<or> \<not> is_object_like block)"

definition is_text_block :: "json \<Rightarrow> bool" where
  "is_text_block block = (is_str (member block ''type'') ''text'' \<and> is_string (member block ''text''))"

definition is_kept :: "json \<Rightarrow> bool" where
  "is_kept block = (\<not> is_skipped block \<and> \<not> is_base64_image block)"

fun keep_block :: "(string \<Rightarrow> int \<Rightarrow> string) \<Rightarrow> json list \<times> int \<Rightarrow> json \<Rightarrow> json list \<times> int" where
  "keep_block compact (kept, used) block =
     (if \<not> is_kept block then (kept, used)
      else if is_text_block block then
        let text = compact (toString (the (member block ''text''))) (MAX_ANTIGRAVITY_TOOL_RESULT_CHARS - used)
        in (kept @ [with_text block text], used + int (utf16_length text))
      else (kept @ [block], used + 100))"

definition visit :: "(string \<Rightarrow> int \<Rightarrow> string) \<Rightarrow> json list \<Rightarrow> json list \<times> int" where
  "visit compact blocks = foldl (keep_block compact) ([], 0) blocks"

text \<open>
  Where the size limit lets the loop go.  The loop gets through \<open>visited\<close> when every
  text block it keeps is met with fewer than 200000 characters used, and every other
  kept block except the last leaves fewer than 200000 characters used.  It stops in front
  of \<open>rest\<close> when nothing is left, or when 200000 characters or more are used and either
  the next block is a text block or the last visited block was another kept block.
\<close>

definition gets_through :: "(string \<Rightarrow> int \<Rightarrow> string) \<Rightarrow> json list \<Rightarrow> bool" where
  "gets_through compact visited =
     list_all
       (\<lambda>i. \<not> is_kept (visited ! i)
            \<or> (if is_text_block (visited ! i)
               then snd (visit compact (take i visited)) < MAX_ANTIGRAVITY_TOOL_RESULT_CHARS
               else Suc i = length visited
                    \<or> snd (visit compact (take (Suc i) visited)) < MAX_ANTIGRAVITY_TOOL_RESULT_CHARS))
       [0..<length visited]"

definition stops_before :: "(string \<Rightarrow> int \<Rightarrow> string) \<Rightarrow> json list \<Rightarrow> json list \<Rightarrow> bool" where
  "stops_before compact visited rest =
     (rest = []
      \<or> (MAX_ANTIGRAVITY_TOOL_RESULT_CHARS \<le> snd (visit compact visited)
         \<and> ((is_kept (hd rest) \<and> is_text_block (hd rest))
            \<or> (visited \<noteq> [] \<and> is_kept (last visited) \<and> \<not> is_text_block (last visited)))))"

text \<open>The loop is still running after \<open>visited\<close>: every kept block of it left room.\<close>

definition still_running :: "(string \<Rightarrow> int \<Rightarrow> string) \<Rightarrow> json list \<Rightarrow> bool" where
  "still_running compact visited =
     list_all
       (\<lambda>i. \<not> is_kept (visited ! i)
            \<or> (if is_text_block (visited ! i)
               then snd (visit compact (take i visited)) < MAX_ANTIGRAVITY_TOOL_RESULT_CHARS
               else snd (visit compact (take (Suc i) visited)) < MAX_ANTIGRAVITY_TOOL_RESULT_CHARS))
       [0..<length visited]"

text \<open>A block that is neither a text nor an image, for the closed examples.\<close>

definition resource_block :: json where
  "resource_block = JObj [(''type'', JStr ''resource'')]"

text \<open>For the closed examples: an image block, and a compaction that cuts the text at the
  budget.\<close>

definition image_block :: "string \<Rightarrow> json" where
  "image_block d =
     JObj [(''type'', JStr ''image''),
           (''source'', JObj [(''type'', JStr ''base64''), (''media_type'', JStr ''image/png''),
                              (''data'', JStr d)])]"

definition cut_at :: "string \<Rightarrow> int \<Rightarrow> string" where
  "cut_at text maxChars = take (nat maxChars) text"

section \<open>Normalising the Anthropic message list\<close>

definition has_type :: "json \<Rightarrow> string \<Rightarrow> bool" where
  "has_type part t = is_str (member part ''type'') t"

definition isIgnorableTrailingText :: "json \<Rightarrow> bool" where
  "isIgnorableTrailingText part =
     (if \<not> truthy part \<or> \<not> has_type part ''text'' then False
      else case member part ''text'' of
             Some (JStr s) \<Rightarrow> trim s = [] \<or> trim s = ''(no content)''
           | _ \<Rightarrow> False)"

text \<open>\<^verbatim>\<open>const { cache_control, ...cleanedPart } = part\<close>\<close>

fun without_cache_control :: "json \<Rightarrow> json" where
  "without_cache_control (JObj kvs) = JObj (AList.delete ''cache_control'' kvs)"
| "without_cache_control v = v"

definition normalizeAssistantThinkingOrderForVendor :: "string option \<Rightarrow> json list \<Rightarrow> json list" where
  "normalizeAssistantThinkingOrderForVendor vendor parts =
     (if vendor \<noteq> Some ''antigravity'' then parts
      else
        let thinkingBlocks = map without_cache_control
                               (filter (\<lambda>part. truthy part \<and> is_thinking_block part) parts);
            otherBlocks = filter (\<lambda>part. truthy part \<and> \<not> is_thinking_block part
                                         \<and> \<not> isIgnorableTrailingText part) parts
        in if thinkingBlocks = [] then otherBlocks else thinkingBlocks @ otherBlocks)"

text \<open>The loop of \<^verbatim>\<open>stripNonToolPartsAfterToolUse\<close>; the flag is \<^verbatim>\<open>seenToolUse\<close>.  After the
  first tool use only tool use parts are kept.\<close>

fun strip_after :: "bool \<Rightarrow> json list \<Rightarrow> json list" where
  "strip_after seenToolUse [] = []"
| "strip_after seenToolUse (part # parts) =
     (if \<not> truthy part then strip_after seenToolUse parts
      else if has_type part ''tool_use'' then part # strip_after True parts
      else if \<not> seenToolUse then part # strip_after seenToolUse parts
      else strip_after seenToolUse parts)"

definition stripNonToolPartsAfterToolUse :: "json list \<Rightarrow> json list" where
  "stripNonToolPartsAfterToolUse parts = strip_after False parts"

definition synthetic_tool_result :: "string \<Rightarrow> json" where
  "synthetic_tool_result toolUseId =
     JObj [(''type'', JStr ''tool_result''), (''tool_use_id'', JStr toolUseId), (''is_error'', JBool True),
           (''content'', JArr [JObj [(''type'', JStr ''text''),
                                    (''text'', JStr ''[tool_result missing; tool execution interrupted]'')]])]"

definition synthetic_user_message :: "string list \<Rightarrow> json" where
  "synthetic_user_message pendingToolUseIds =
     JObj [(''role'', JStr ''user''), (''content'', JArr (map synthetic_tool_result pendingToolUseIds))]"

text \<open>\<^verbatim>\<open>{ ...message, content: c }\<close>\<close>

fun with_content :: "json \<Rightarrow> json list \<Rightarrow> json" where
  "with_content (JObj kvs) c = JObj (AList.update ''content'' (JArr c) kvs)"
| "with_content v c = v"

text \<open>The strings among the values of a key, as in
  \<^verbatim>\<open>xs.map((p) => p.k).filter((id) => typeof id === 'string')\<close>.\<close>

fun string_member :: "string \<Rightarrow> json \<Rightarrow> string list" where
  "string_member k part = (case member part k of Some (JStr s) \<Rightarrow> [s] | _ \<Rightarrow> [])"

definition string_members :: "string \<Rightarrow> json list \<Rightarrow> string list" where
  "string_members k parts = concat (map (string_member k) parts)"

text \<open>
  One turn of the loop over the messages, for a message whose \<^verbatim>\<open>content\<close> is an array.
  The turn pushes, in this order, a synthetic user message closing the pending tool uses
  (before an assistant message, for the size-constrained vendor), and one or two copies
  of the message with a new content.  \<open>normalize_content\<close> yields the synthetic messages,
  the new contents, and the new value of \<^verbatim>\<open>pendingToolUseIds\<close>.
\<close>

definition normalize_content ::
  "string option \<Rightarrow> json option \<Rightarrow> json list \<Rightarrow> string list \<Rightarrow> json list \<times> json list list \<times> string list" where
  "normalize_content vendor role content pendingToolUseIds =
     (let parts0 = filter truthy content;
          parts = (if is_str role ''assistant''
                   then normalizeAssistantThinkingOrderForVendor vendor parts0 else parts0)
      in if vendor = Some ''antigravity'' \<and> is_str role ''assistant'' then
           let stripped = stripNonToolPartsAfterToolUse parts;
               toolUseIds = string_members ''id'' (filter (\<lambda>part. has_type part ''tool_use'') stripped)
           in ((if pendingToolUseIds \<noteq> [] then [synthetic_user_message pendingToolUseIds] else []),
               [stripped], toolUseIds)
         else
           let completing = (vendor = Some ''antigravity'' \<and> is_str role ''user''
                               \<and> pendingToolUseIds \<noteq> []);
               toolResults0 = filter (\<lambda>p. has_type p ''tool_result'') parts;
               toolResultIds = string_members ''tool_use_id'' toolResults0;
               missing = filter (\<lambda>id. id \<notin> set toolResultIds) pendingToolUseIds;
               parts1 = (if completing \<and> missing \<noteq> []
                         then toolResults0 @ map synthetic_tool_result missing
                                @ filter (\<lambda>p. \<not> has_type p ''tool_result'') parts
                         else parts);
               pending1 = (if completing then [] else pendingToolUseIds);
               toolResults = filter (\<lambda>p. has_type p ''tool_result'') parts1;
               nonToolResults = filter (\<lambda>p. \<not> has_type p ''tool_result'') parts1
           in if \<not> is_str role ''user'' then ([], [parts1], pending1)
              else if toolResults = [] then ([], [parts1], pending1)
              else if nonToolResults = [] then ([], [toolResults], pending1)
              else ([], [toolResults, nonToolResults], pending1))"

text \<open>A message that is falsy or whose content is not an array is pushed as it is.\<close>

definition normalize_message :: "string option \<Rightarrow> json \<Rightarrow> string list \<Rightarrow> json list \<times> string list" where
  "normalize_message vendor message pendingToolUseIds =
     (case member message ''content'' of
        Some (JArr content) \<Rightarrow>
          (case normalize_content vendor (member message ''role'') content pendingToolUseIds of
             (synthetic, contents, pending1) \<Rightarrow>
               (synthetic @ map (with_content message) contents, pending1))
      | _ \<Rightarrow> ([message], pendingToolUseIds))"

text \<open>The loop over the messages, from a given value of \<^verbatim>\<open>pendingToolUseIds\<close>: the messages
  pushed to \<^verbatim>\<open>normalized\<close> and the identifiers still pending at the end.\<close>

fun normalize_steps :: "string option \<Rightarrow> json list \<Rightarrow> string list \<Rightarrow> json list \<times> string list" where
  "normalize_steps vendor [] pendingToolUseIds = ([], pendingToolUseIds)"
| "normalize_steps vendor (message # messages) pendingToolUseIds =
     (case normalize_message vendor message pendingToolUseIds of
        (pushed, pending1) \<Rightarrow>
          (case normalize_steps vendor messages pending1 of
             (rest, pending2) \<Rightarrow> (pushed @ rest, pending2)))"

text \<open>The synthetic message pushed after the loop when tool uses are still pending.\<close>

definition close_pending :: "string option \<Rightarrow> string list \<Rightarrow> json list" where
  "close_pending vendor pendingToolUseIds =
     (if vendor = Some ''antigravity'' \<and> pendingToolUseIds \<noteq> []
      then [synthetic_user_message pendingToolUseIds] else [])"

text \<open>An argument that is not an array, or an empty one, is returned as it is.\<close>

definition normalizeAnthropicMessages :: "string option \<Rightarrow> json \<Rightarrow> json" where
  "normalizeAnthropicMessages vendor messages =
     (case messages of
        JArr (m # ms) \<Rightarrow>
          (case normalize_steps vendor (m # ms) [] of
             (normalized, pending) \<Rightarrow> JArr (normalized @ close_pending vendor pending))
      | v \<Rightarrow> v)"

text \<open>A conversation for the closed examples: an assistant turn with a trailing thinking
  block and a tool use, answered by a plain user text.\<close>

definition interrupted_conversation :: json where
  "interrupted_conversation =
     JArr [JObj [(''role'', JStr ''assistant''),
                 (''content'', JArr [JObj [(''type'', JStr ''text''), (''text'', JStr ''Let me look.'')],
                                     JObj [(''type'', JStr ''tool_use''), (''id'', JStr ''toolu_1''),
                                           (''name'', JStr ''Read''), (''input'', JObj [])],
                                     JObj [(''type'', JStr ''thinking''), (''thinking'', JStr ''hm''),
                                           (''cache_control'', JObj [(''type'', JStr ''ephemeral'')])]])],
           JObj [(''role'', JStr ''user''),
                 (''content'', JArr [JObj [(''type'', JStr ''text''), (''text'', JStr ''and then?'')]])]]"

section \<open>Serialising and repairing tool arguments\<close>

subsection \<open>Searching and cutting strings\<close>

text \<open>\<open>find_sub pat s k\<close> is the index, counted from \<open>k\<close>, of the first place in \<open>s\<close> where
  \<open>pat\<close> starts.\<close>

fun find_sub :: "string \<Rightarrow> string \<Rightarrow> nat \<Rightarrow> nat option" where
  "find_sub pat [] k = (if pat = [] then Some k else None)"
| "find_sub pat (c # cs) k = (if startsWith (c # cs) pat then Some k else find_sub pat cs (Suc k))"

text \<open>\<^verbatim>\<open>s.indexOf(pat)\<close> and \<^verbatim>\<open>s.indexOf(pat, from)\<close>, with \<open>None\<close> for \<open>-1\<close>.\<close>

definition indexOf :: "string \<Rightarrow> string \<Rightarrow> nat option" where
  "indexOf s pat = find_sub pat s 0"

definition indexOf_from :: "string \<Rightarrow> string \<Rightarrow> nat \<Rightarrow> nat option" where
  "indexOf_from s pat n = find_sub pat (drop n s) n"

definition includes_str :: "string \<Rightarrow> string \<Rightarrow> bool" where
  "includes_str s pat = (indexOf s pat \<noteq> None)"

text \<open>\<^verbatim>\<open>s.slice(a, b)\<close> for \<open>0 \<le> a\<close> and \<open>0 \<le> b\<close>.\<close>

definition slice :: "string \<Rightarrow> nat \<Rightarrow> nat \<Rightarrow> string" where
  "slice s a b = take (b - a) (drop a s)"

subsection \<open>Stable serialisation\<close>

text \<open>\<^verbatim>\<open>JSON.stringify\<close> on a string: quotes, with the quote, the backslash and the control
  characters escaped.\<close>

definition hex_digit :: "nat \<Rightarrow> char" where
  "hex_digit n = (if n < 10 then char_of (48 + n) else char_of (87 + n))"

definition escape_char :: "char \<Rightarrow> string" where
  "escape_char c =
     (let n = (of_char c :: nat) in
      if n = 34 then [CHR 0x5C, CHR 0x22]
      else if n = 92 then [CHR 0x5C, CHR 0x5C]
      else if n = 8 then [CHR 0x5C, CHR ''b'']
      else if n = 12 then [CHR 0x5C, CHR ''f'']
      else if n = 10 then [CHR 0x5C, CHR ''n'']
      else if n = 13 then [CHR 0x5C, CHR ''r'']
      else if n = 9 then [CHR 0x5C, CHR ''t'']
      else if n < 32 then [CHR 0x5C, CHR ''u'', CHR ''0'', CHR ''0'', hex_digit (n div 16), hex_digit (n mod 16)]
      else [c])"

definition quote :: "string \<Rightarrow> string" where
  "quote s = [CHR 0x22] @ concat (map escape_char s) @ [CHR 0x22]"

text \<open>
  \<^verbatim>\<open>stableJsonStringify\<close>: the members of an object are written in the order of their
  sorted keys.
\<close>

fun stableJsonStringify :: "json \<Rightarrow> string" where
  "stableJsonStringify JNull = ''null''"
| "stableJsonStringify (JBool b) = (if b then ''true'' else ''false'')"
| "stableJsonStringify (JNum n) = string_of_int n"
| "stableJsonStringify (JStr s) = quote s"
| "stableJsonStringify (JArr xs) = ''['' @ join '','' (map stableJsonStringify xs) @ '']''"
| "stableJsonStringify (JObj kvs) =
     ''{'' @ join '',''
       (map (\<lambda>kr. quote (fst kr) @ '':'' @ snd kr)
          (sort_key fst (map (\<lambda>kv. (fst kv, stableJsonStringify (snd kv))) kvs))) @ ''}''"

subsection \<open>Repairing the arguments of a function call\<close>

text \<open>\<^verbatim>\<open>args.k\<close> tested for truth.\<close>

definition has :: "(string \<times> json) list \<Rightarrow> string \<Rightarrow> bool" where
  "has args k = truthy_opt (map_of args k)"

text \<open>The string chosen for \<^verbatim>\<open>path\<close> from a truthy \<^verbatim>\<open>paths\<close> by the search tools.\<close>

fun path_of_paths :: "json \<Rightarrow> string" where
  "path_of_paths (JArr (JStr s # xs)) = s"
| "path_of_paths (JStr s) = s"
| "path_of_paths v = ''.''"

text \<open>
  \<^verbatim>\<open>remapFunctionCallArgs\<close> on an object; \<open>nameLower\<close> is the tool name in lower case.
  Assigning \<^verbatim>\<open>args.k = v\<close> replaces the member in place or appends it.
\<close>

definition remapFunctionCallArgs :: "string \<Rightarrow> (string \<times> json) list \<Rightarrow> (string \<times> json) list" where
  "remapFunctionCallArgs nameLower args =
     (if nameLower = ''enterplanmode'' then []
      else if nameLower = ''grep'' \<or> nameLower = ''search'' \<or> nameLower = ''glob''
              \<or> nameLower = ''search_code_definitions'' \<or> nameLower = ''search_code_snippets'' then
        let a1 = (if has args ''description'' \<and> \<not> has args ''pattern''
                  then AList.delete ''description''
                         (AList.update ''pattern'' (the (map_of args ''description'')) args)
                  else args);
            a2 = (if has a1 ''query'' \<and> \<not> has a1 ''pattern''
                  then AList.delete ''query'' (AList.update ''pattern'' (the (map_of a1 ''query'')) a1)
                  else a1)
        in if \<not> has a2 ''path'' then
             (if has a2 ''paths''
              then AList.delete ''paths''
                     (AList.update ''path'' (JStr (path_of_paths (the (map_of a2 ''paths'')))) a2)
              else AList.update ''path'' (JStr ''.'') a2)
           else a2
      else if nameLower = ''read'' then
        (if has args ''path'' \<and> \<not> has args ''file_path''
         then AList.delete ''path'' (AList.update ''file_path'' (the (map_of args ''path'')) args)
         else args)
      else if nameLower = ''ls'' then
        (if \<not> has args ''path'' then AList.update ''path'' (JStr ''.'') args else args)
      else
        (if \<not> has args ''path'' \<and> has args ''paths'' then
           (case map_of args ''paths'' of
              Some (JArr [JStr s]) \<Rightarrow> AList.delete ''paths'' (AList.update ''path'' (JStr s) args)
            | _ \<Rightarrow> args)
         else args))"

section \<open>The streaming translator\<close>

subsection \<open>What is written to the client\<close>

text \<open>
  The events written by \<^verbatim>\<open>writeAnthropicSseEvent\<close>, with the fields that identify them:
  the index and the content block of a \<^verbatim>\<open>content_block_start\<close> (for a tool use its
  identifier and name; its \<^verbatim>\<open>input\<close> is always empty there), the index and the delta of a
  \<^verbatim>\<open>content_block_delta\<close>, the index of a \<^verbatim>\<open>content_block_stop\<close>, the stop reason of a
  \<^verbatim>\<open>message_delta\<close>, the type and message of an \<^verbatim>\<open>error\<close>.  Token usage is left out.
  Besides events the trace records \<^verbatim>\<open>res.end()\<close> and the non-streaming calls of the rescue
  (\<open>UpstreamCall True\<close> is the forced one).
\<close>

datatype block_type = BText | BThinking | BToolUse

datatype content_block = TextStart | ThinkingStart | ToolUseStart string json

datatype delta =
    TextDelta string
  | ThinkingDelta string
  | SignatureDelta string
  | InputJsonDelta string

datatype sse_event =
    MessageStart string string
  | ContentBlockStart int content_block
  | ContentBlockDelta int delta
  | ContentBlockStop int
  | MessageDelta string
  | MessageStop
  | ErrorEvent string string

datatype effect = Sse sse_event | ResEnd | UpstreamCall bool

subsection \<open>The variables of one streaming response\<close>

record pending_call =
  pc_name :: json
  pc_args :: "json option"
  pc_argsJson :: string

text \<open>
  The variables captured by the handlers.  \<open>written\<close> is the trace of what was written so far,
  \<open>idCounter\<close> counts the calls of \<^verbatim>\<open>buildToolUseId\<close>, and \<open>activityArmed\<close> and
  \<open>firstByteArmed\<close> tell whether the timers \<^verbatim>\<open>activityTimeout\<close> and \<^verbatim>\<open>firstByteTimeout\<close>
  are pending.  The line buffer, the counters
  and the usage metadata, which only feed the logs and the token usage, are left out, and
  so is the set of emitted tool names.
\<close>

record stream_state =
  written :: "effect list"
  emittedText :: string
  emittedThinking :: string
  emittedThoughtSignature :: string
  finished :: bool
  finishReason :: "json option"
  emittedAnyToolUse :: bool
  rescueAttempted :: bool
  forcedRescueAttempted :: bool
  emittedToolCallKeys :: "string list"
  pendingToolCallsById :: "(string \<times> pending_call) list"
  mcpXmlBuffer :: string
  inMcpXml :: bool
  currentIndex :: int
  currentBlockType :: "block_type option"
  receivedAnyUpstreamBytes :: bool
  activityArmed :: bool
  firstByteArmed :: bool
  idCounter :: nat

text \<open>
  What is fixed when the stream starts: the vendor, whether the request asked for
  thoughts (\<^verbatim>\<open>thinkingConfig.include_thoughts === true\<close>), the identifier and model of the
  message, the tool planned by the latest task list (\<^verbatim>\<open>plannedToolName\<close>), the case
  mappings of the runtime on texts that are not ASCII, the parser and the identifier
  supply, and what the two non-streaming calls of the rescue would give: \<open>Threw\<close> when
  the call fails, otherwise the payload it returns.
\<close>

datatype 'a outcome = Threw | Returned 'a

record stream_env =
  isAntigravityVendor :: bool
  includeThoughts :: bool
  messageId :: string
  responseModel :: string
  plannedToolName :: "string option"
  unicodeUpperCase :: "string \<Rightarrow> string"
  unicodeLowerCase :: "string \<Rightarrow> string"
  jsonParse :: "string \<Rightarrow> json option"
  newToolUseId :: "nat \<Rightarrow> string"
  rescueResponse :: "json option outcome"
  forcedRescueResponse :: "json option outcome"

definition wantsThinkingBlockFirst :: "stream_env \<Rightarrow> bool" where
  "wantsThinkingBlockFirst env = (isAntigravityVendor env \<and> includeThoughts env)"

subsection \<open>Opening and closing content blocks\<close>

definition writeAnthropicSseEvent :: "sse_event \<Rightarrow> stream_state \<Rightarrow> stream_state" where
  "writeAnthropicSseEvent ev s = s\<lparr>written := written s @ [Sse ev]\<rparr>"

definition startTextBlock :: "int \<Rightarrow> stream_state \<Rightarrow> stream_state" where
  "startTextBlock index s = writeAnthropicSseEvent (ContentBlockStart index TextStart) s"

definition startThinkingBlock :: "int \<Rightarrow> stream_state \<Rightarrow> stream_state" where
  "startThinkingBlock index s = writeAnthropicSseEvent (ContentBlockStart index ThinkingStart) s"

definition stopCurrentBlock :: "stream_state \<Rightarrow> stream_state" where
  "stopCurrentBlock s = writeAnthropicSseEvent (ContentBlockStop (currentIndex s)) s"

text \<open>\<^verbatim>\<open>if (currentBlockType === 'text' || currentBlockType === 'thinking') stopCurrentBlock()\<close>\<close>

definition stopIfOpen :: "stream_state \<Rightarrow> stream_state" where
  "stopIfOpen s =
     (if currentBlockType s = Some BText \<or> currentBlockType s = Some BThinking
      then stopCurrentBlock s else s)"

definition switchBlockType :: "block_type \<Rightarrow> stream_state \<Rightarrow> stream_state" where
  "switchBlockType nextType s =
     (if currentBlockType s = Some nextType then s
      else
        let s1 = stopIfOpen s;
            s2 = s1\<lparr>currentIndex := currentIndex s1 + 1, currentBlockType := Some nextType\<rparr>
        in if nextType = BText then startTextBlock (currentIndex s2) s2
           else if nextType = BThinking then startThinkingBlock (currentIndex s2) s2
           else s2)"

definition canStartThinkingBlock :: "stream_env \<Rightarrow> stream_state \<Rightarrow> bool" where
  "canStartThinkingBlock env s =
     (if isAntigravityVendor env \<and> wantsThinkingBlockFirst env \<and> emittedAnyToolUse s then False
      else if currentIndex s < 0 then True
      else if currentBlockType s = Some BThinking then True
      else if emittedThinking s \<noteq> [] \<or> emittedThoughtSignature s \<noteq> [] then True
      else False)"

subsection \<open>Emitting a tool use block\<close>

text \<open>
  \<^verbatim>\<open>emitToolUseBlock\<close>.  The first component of the result tells whether the call threw:
  lower-casing a truthy name that is not a string is a \<^verbatim>\<open>TypeError\<close>, raised before anything
  is written.  The serialised arguments are those after the repair.  For an array the
  repair writes named properties, which the serialisation does not show, except for the
  tool \<^verbatim>\<open>EnterPlanMode\<close>, where it deletes every element and leaves holes.
\<close>

definition serialized_args :: "string \<Rightarrow> json \<Rightarrow> string" where
  "serialized_args nameLower args =
     (case args of
        JObj kvs \<Rightarrow> stableJsonStringify (JObj (remapFunctionCallArgs nameLower kvs))
      | JArr xs \<Rightarrow>
          (if nameLower = ''enterplanmode''
           then ''['' @ replicate (length xs - 1) (CHR '','') @ '']''
           else stableJsonStringify (JArr xs))
      | v \<Rightarrow> stableJsonStringify (if truthy v then v else JObj []))"

definition emitToolUseBlock ::
  "stream_env \<Rightarrow> json \<Rightarrow> json \<Rightarrow> json option \<Rightarrow> stream_state \<Rightarrow> bool \<times> stream_state" where
  "emitToolUseBlock env name args toolId s =
     (if is_object_like args \<and> truthy name \<and> \<not> is_string (Some name) then (True, s)
      else
        let nameLower = (case name of JStr n \<Rightarrow> toLowerCase (unicodeLowerCase env) n | _ \<Rightarrow> []);
            given = (case toolId of Some (JStr i) \<Rightarrow> i \<noteq> [] | _ \<Rightarrow> False);
            toolUseId = (case toolId of Some (JStr i) \<Rightarrow> if i \<noteq> [] then i else newToolUseId env (idCounter s)
                         | _ \<Rightarrow> newToolUseId env (idCounter s));
            jsonArgs = serialized_args nameLower args;
            toolIndex = currentIndex s + 1
        in (False,
            s\<lparr>written := written s @
                  [Sse (ContentBlockStart toolIndex (ToolUseStart toolUseId name)),
                   Sse (ContentBlockDelta toolIndex (InputJsonDelta jsonArgs)),
                   Sse (ContentBlockStop toolIndex)],
              currentIndex := toolIndex,
              emittedAnyToolUse := True,
              currentBlockType := None,
              idCounter := (if given then idCounter s else Suc (idCounter s))\<rparr>))"

subsection \<open>Partial arguments of a function call\<close>

text \<open>\<^verbatim>\<open>resolveFunctionCallArgs\<close> on a truthy function call: the arguments when they are a
  complete object, otherwise the text received so far, and whether more is announced.\<close>

definition first_defined :: "json \<Rightarrow> string list \<Rightarrow> json option" where
  "first_defined v ks = (case filter (\<lambda>k. member v k \<noteq> None) ks of [] \<Rightarrow> None | k # _ \<Rightarrow> member v k)"

definition resolveFunctionCallArgs ::
  "(string \<Rightarrow> json option) \<Rightarrow> json \<Rightarrow> json option \<times> string \<times> bool" where
  "resolveFunctionCallArgs P functionCall =
     (if \<not> is_object_like functionCall then (None, [], False)
      else
        let canContinue =
              (member functionCall ''willContinue'' = Some (JBool True)
               \<or> member functionCall ''will_continue'' = Some (JBool True)
               \<or> member functionCall ''continue'' = Some (JBool True)
               \<or> member functionCall ''willContinue'' = Some (JStr ''true'')
               \<or> member functionCall ''will_continue'' = Some (JStr ''true''));
            raw = (case first_defined functionCall
                          [''args'', ''partialArgs'', ''partial_args'', ''argsJson'', ''args_json''] of
                     None \<Rightarrow> JStr []
                   | Some v \<Rightarrow> v)
        in case raw of
             JObj kvs \<Rightarrow> (Some (JObj kvs), [], canContinue)
           | _ \<Rightarrow>
               let text = (case raw of JStr t \<Rightarrow> t | JNull \<Rightarrow> [] | v \<Rightarrow> toString v) in
               if text = [] then (None, [], canContinue)
               else (case P text of
                       Some (JObj kvs) \<Rightarrow> (Some (JObj kvs), [], canContinue)
                     | _ \<Rightarrow> (None, text, canContinue)))"

text \<open>
  \<^verbatim>\<open>flushPendingToolCallById\<close>; the first component tells whether \<^verbatim>\<open>emitToolUseBlock\<close>
  threw.
\<close>

definition flushPendingToolCallById ::
  "stream_env \<Rightarrow> string \<Rightarrow> bool \<Rightarrow> stream_state \<Rightarrow> bool \<times> stream_state" where
  "flushPendingToolCallById env callId force s =
     (case map_of (pendingToolCallsById s) callId of
        None \<Rightarrow> (False, s)
      | Some pending0 \<Rightarrow>
          if \<not> truthy (pc_name pending0) then (False, s)
          else
            let pending1 =
                  (if pc_args pending0 = None \<and> pc_argsJson pending0 \<noteq> [] then
                     (case jsonParse env (pc_argsJson pending0) of
                        Some (JObj kvs) \<Rightarrow> pending0\<lparr>pc_args := Some (JObj kvs), pc_argsJson := []\<rparr>
                      | _ \<Rightarrow> pending0)
                   else pending0)
            in if pc_args pending1 = None \<and> \<not> force then (False, s)
               else
                 let args = (case pc_args pending1 of None \<Rightarrow> JObj [] | Some a \<Rightarrow> a);
                     toolKey = ''id:'' @ callId
                 in if toolKey \<in> set (emittedToolCallKeys s)
                    then (False, s\<lparr>pendingToolCallsById := AList.delete callId (pendingToolCallsById s)\<rparr>)
                    else
                      let s1 = stopIfOpen (s\<lparr>emittedToolCallKeys := emittedToolCallKeys s @ [toolKey]\<rparr>);
                          s2 = s1\<lparr>currentBlockType := Some BToolUse,
                                  pendingToolCallsById :=
                                    AList.update callId (pending1\<lparr>pc_args := Some args\<rparr>) (pendingToolCallsById s1)\<rparr>
                      in case emitToolUseBlock env (pc_name pending1) args (Some (JStr callId)) s2 of
                           (threw, s3) \<Rightarrow>
                             if threw then (True, s3)
                             else (False, s3\<lparr>pendingToolCallsById :=
                                               AList.delete callId (pendingToolCallsById s3)\<rparr>))"

subsection \<open>Tool tags inside streamed text\<close>

datatype mcp_action = TextAction string | ToolAction string json

definition MAX_BUFFER_CHARS :: nat where
  "MAX_BUFFER_CHARS = 65536"

text \<open>
  The bridge works on the buffer, the flag \<^verbatim>\<open>inMcpXml\<close> and the list of actions.  The
  positions it cuts at are those of ASCII tags, found by searching the bytes.
\<close>

definition appendToBuffer :: "string \<Rightarrow> string \<times> bool \<times> mcp_action list \<Rightarrow> string \<times> bool \<times> mcp_action list" where
  "appendToBuffer t b =
     (case b of (buffer, inXml, actions) \<Rightarrow>
        if t = [] then (buffer, inXml, actions)
        else if utf16_length (buffer @ t) > MAX_BUFFER_CHARS
        then ([], False, actions @ [TextAction (buffer @ t)])
        else (buffer @ t, inXml, actions))"

function mcp_loop ::
  "(string \<Rightarrow> json option) \<Rightarrow> string \<times> bool \<times> mcp_action list \<Rightarrow> string \<times> bool \<times> mcp_action list" where
  "mcp_loop P (buffer, inXml, actions) =
     (if \<not> (inXml \<and> buffer \<noteq> []) then (buffer, inXml, actions)
      else case indexOf buffer ''<mcp__'' of
             None \<Rightarrow> ([], False, actions @ [TextAction buffer])
           | Some startIdx \<Rightarrow>
               let actions1 = (if startIdx > 0 then actions @ [TextAction (slice buffer 0 startIdx)]
                               else actions);
                   buffer1 = (if startIdx > 0 then drop startIdx buffer else buffer)
               in case indexOf buffer1 ''>'' of
                    None \<Rightarrow> (buffer1, True, actions1)
                  | Some tagEnd \<Rightarrow>
                      let toolName = slice buffer1 1 tagEnd;
                          endTag = ''</'' @ toolName @ ''>''
                      in case indexOf_from buffer1 endTag (tagEnd + 1) of
                           None \<Rightarrow> (buffer1, True, actions1)
                         | Some closeIdx \<Rightarrow>
                             let inputStr = trim (slice buffer1 (tagEnd + 1) closeIdx);
                                 input = (if inputStr \<noteq> []
                                          then (case P inputStr of
                                                  Some v \<Rightarrow> v
                                                | None \<Rightarrow> JObj [(''input'', JStr inputStr)])
                                          else JObj []);
                                 actions2 = actions1 @ [ToolAction toolName input];
                                 buffer2 = drop (closeIdx + length endTag) buffer1
                             in if buffer2 = [] then ([], False, actions2)
                                else mcp_loop P (buffer2, includes_str buffer2 ''<mcp__'', actions2))"
  by pat_completeness auto
termination
proof (relation "measure (\<lambda>(P, buffer, inXml, actions). length buffer)")
  show "wf (measure (\<lambda>(P, buffer, inXml, actions). length buffer))"
    by simp
next
  fix P :: "string \<Rightarrow> json option" and buffer :: string and inXml :: bool
    and actions :: "mcp_action list" and startIdx tagEnd closeIdx :: nat
    and actions1 actions2 :: "mcp_action list" and buffer1 buffer2 toolName endTag inputStr :: string
    and input :: json
  assume "\<not> \<not> (inXml \<and> buffer \<noteq> [])"
    and b1: "buffer1 = (if 0 < startIdx then drop startIdx buffer else buffer)"
    and et: "endTag = ''</'' @ toolName @ ''>''"
    and b2: "buffer2 = drop (closeIdx + length endTag) buffer1"
    and ne: "buffer2 \<noteq> []"
  from et have "0 < closeIdx + length endTag" by simp
  moreover from b2 ne have "closeIdx + length endTag < length buffer1" by simp
  moreover from b2 have "length buffer2 = length buffer1 - (closeIdx + length endTag)" by simp
  ultimately have "length buffer2 < length buffer1" by linarith
  also from b1 have "length buffer1 \<le> length buffer" by simp
  finally show "((P, buffer2, includes_str buffer2 ''<mcp__'', actions2), P, buffer, inXml, actions)
      \<in> measure (\<lambda>(P, buffer, inXml, actions). length buffer)"
    by simp
qed

declare mcp_loop.simps [simp del]

definition processMcpXmlBridgeDelta ::
  "(string \<Rightarrow> json option) \<Rightarrow> string \<Rightarrow> string \<times> bool \<Rightarrow> mcp_action list \<times> string \<times> bool" where
  "processMcpXmlBridgeDelta P deltaText b =
     (case b of (buffer, inXml) \<Rightarrow>
        if deltaText = [] then ([], buffer, inXml)
        else if \<not> inXml \<and> indexOf deltaText ''<mcp__'' = None
        then ([TextAction deltaText], buffer, inXml)
        else
          let started =
                (if \<not> inXml then
                   let startIdx = the (indexOf deltaText ''<mcp__'');
                       prefix = slice deltaText 0 startIdx
                   in appendToBuffer (drop startIdx deltaText)
                        (buffer, True, (if prefix \<noteq> [] then [TextAction prefix] else []))
                 else appendToBuffer deltaText (buffer, inXml, []))
          in case mcp_loop P started of (buffer', inXml', actions) \<Rightarrow> (actions, buffer', inXml'))"

subsection \<open>Reading a backend payload\<close>

definition extractGeminiText :: "json option \<Rightarrow> string" where
  "extractGeminiText payload =
     concat (map (\<lambda>part. toString (the (member part ''text'')))
       (filter (\<lambda>part. is_string (member part ''text'') \<and> truthy_opt (member part ''text'')
                        \<and> \<not> truthy_opt (member part ''thought''))
          (extractGeminiParts payload)))"

definition extractGeminiThoughtText :: "json option \<Rightarrow> string" where
  "extractGeminiThoughtText payload =
     concat (map (\<lambda>part. toString (the (member part ''text'')))
       (filter (\<lambda>part. truthy_opt (member part ''thought'') \<and> is_string (member part ''text'')
                        \<and> truthy_opt (member part ''text''))
          (extractGeminiParts payload)))"

text \<open>The first truthy signature of a function call part, otherwise of a thought part.\<close>

definition extractGeminiThoughtSignature :: "json option \<Rightarrow> json" where
  "extractGeminiThoughtSignature payload =
     (let parts = extractGeminiParts payload;
          onCalls = filter truthy (map resolveSignature
                      (filter (\<lambda>part. truthy_opt (chain (member part ''functionCall'') ''name'')) parts));
          onThoughts = filter truthy (map resolveSignature
                         (filter (\<lambda>part. truthy_opt (member part ''thought'')) parts))
      in case onCalls @ onThoughts of [] \<Rightarrow> JStr [] | sig # _ \<Rightarrow> sig)"

definition is_token_char :: "char \<Rightarrow> bool" where
  "is_token_char c =
     (let n = (of_char c :: nat) in
      (65 \<le> n \<and> n \<le> 90) \<or> (97 \<le> n \<and> n \<le> 122) \<or> (48 \<le> n \<and> n \<le> 57)
      \<or> c = CHR ''+'' \<or> c = CHR ''/'' \<or> c = CHR ''_'' \<or> c = CHR ''='' \<or> c = CHR ''-'')"

definition sanitizeThoughtSignatureForAntigravity :: "json \<Rightarrow> string" where
  "sanitizeThoughtSignatureForAntigravity sig =
     (case sig of
        JStr raw \<Rightarrow>
          (let compacted = remove_white_space (trim raw) in
           if trim raw = [] then []
           else if utf16_length compacted > 65536 then []
           else if compacted = [] \<or> \<not> list_all is_token_char compacted then []
           else if utf16_length compacted < 8 then []
           else compacted)
      | _ \<Rightarrow> [])"

subsection \<open>One backend payload\<close>

text \<open>
  The steps of the data handler return whether they threw, and the variables as they
  were at that moment.  \<open>and_then\<close> runs the next step unless the previous one threw.
\<close>

definition and_then ::
  "bool \<times> stream_state \<Rightarrow> (stream_state \<Rightarrow> bool \<times> stream_state) \<Rightarrow> bool \<times> stream_state" where
  "and_then r f = (case r of (threw, s) \<Rightarrow> if threw then (True, s) else f s)"

text \<open>
  The signature delta.  Outside Antigravity the signature is used as it came, and
  \<^verbatim>\<open>startsWith\<close> on a truthy value that is not a string is a \<^verbatim>\<open>TypeError\<close>.
\<close>

definition signature_step :: "stream_env \<Rightarrow> json \<Rightarrow> stream_state \<Rightarrow> bool \<times> stream_state" where
  "signature_step env thoughtSignature s =
     (if truthy thoughtSignature \<and> canStartThinkingBlock env s then
        (case thoughtSignature of
           JStr sig \<Rightarrow>
             let delta = (if startsWith sig (emittedThoughtSignature s)
                          then drop (length (emittedThoughtSignature s)) sig
                          else if sig \<noteq> emittedThoughtSignature s then sig else [])
             in if delta \<noteq> [] then
                  let s1 = switchBlockType BThinking s;
                      s2 = writeAnthropicSseEvent
                             (ContentBlockDelta (currentIndex s1) (SignatureDelta delta)) s1
                  in (False, s2\<lparr>emittedThoughtSignature := sig\<rparr>)
                else (False, s)
         | _ \<Rightarrow> (True, s))
      else (False, s))"

text \<open>The thinking delta; caching the signature for later requests is left out.\<close>

definition thought_step :: "stream_env \<Rightarrow> string \<Rightarrow> stream_state \<Rightarrow> stream_state" where
  "thought_step env fullThought s =
     (if fullThought \<noteq> [] \<and> canStartThinkingBlock env s then
        let delta = (if startsWith fullThought (emittedThinking s)
                     then drop (length (emittedThinking s)) fullThought
                     else fullThought)
        in if delta \<noteq> [] then
             let s1 = switchBlockType BThinking s;
                 s2 = s1\<lparr>emittedThinking := fullThought\<rparr>
             in writeAnthropicSseEvent (ContentBlockDelta (currentIndex s2) (ThinkingDelta delta)) s2
           else s
      else s)"

text \<open>One part of the payload in the loop over the function calls.\<close>

definition function_call_step :: "stream_env \<Rightarrow> json \<Rightarrow> stream_state \<Rightarrow> bool \<times> stream_state" where
  "function_call_step env part s =
     (let functionCall = member part ''functionCall'' in
      if \<not> truthy_opt (chain functionCall ''name'') then (False, s)
      else
        let name = the (chain functionCall ''name'');
            callId = (case chain functionCall ''id'' of
                        Some (JStr i) \<Rightarrow> if i \<noteq> [] then Some i else None
                      | _ \<Rightarrow> None)
        in case resolveFunctionCallArgs (jsonParse env) (the functionCall) of
             (args, json, canContinue) \<Rightarrow>
               (case callId of
                  None \<Rightarrow>
                    let finalArgs = (case args of Some a \<Rightarrow> a | None \<Rightarrow> JObj []);
                        toolKey = toString name @ '':'' @ stableJsonStringify finalArgs
                    in if toolKey \<in> set (emittedToolCallKeys s) then (False, s)
                       else
                         let s1 = stopIfOpen (s\<lparr>emittedToolCallKeys := emittedToolCallKeys s @ [toolKey]\<rparr>)
                         in emitToolUseBlock env name finalArgs None (s1\<lparr>currentBlockType := Some BToolUse\<rparr>)
                | Some i \<Rightarrow>
                    let pending0 = (case map_of (pendingToolCallsById s) i of
                                      Some p \<Rightarrow> p
                                    | None \<Rightarrow> \<lparr>pc_name = name, pc_args = None, pc_argsJson = []\<rparr>);
                        pending1 = pending0\<lparr>pc_name := name\<rparr>;
                        pending2 = (case args of
                                      Some a \<Rightarrow> pending1\<lparr>pc_args := Some a, pc_argsJson := []\<rparr>
                                    | None \<Rightarrow>
                                        if json \<noteq> []
                                        then pending1\<lparr>pc_argsJson := pc_argsJson pending1 @ json\<rparr>
                                        else pending1);
                        s1 = s\<lparr>pendingToolCallsById := AList.update i pending2 (pendingToolCallsById s)\<rparr>
                    in if \<not> canContinue then flushPendingToolCallById env i False s1
                       else (False, s1)))"

fun function_call_loop :: "stream_env \<Rightarrow> json list \<Rightarrow> stream_state \<Rightarrow> bool \<times> stream_state" where
  "function_call_loop env [] s = (False, s)"
| "function_call_loop env (part # parts) s =
     and_then (function_call_step env part s) (function_call_loop env parts)"

text \<open>
  One action of the tag bridge.  The name of a tool action is a string, so that
  \<^verbatim>\<open>emitToolUseBlock\<close> does not throw there.
\<close>

fun apply_action :: "stream_env \<Rightarrow> stream_state \<Rightarrow> mcp_action \<Rightarrow> stream_state" where
  "apply_action env s (TextAction t) =
     (if t = [] then s
      else let s1 = switchBlockType BText s
           in writeAnthropicSseEvent (ContentBlockDelta (currentIndex s1) (TextDelta t)) s1)"
| "apply_action env s (ToolAction toolName args) =
     snd (emitToolUseBlock env (JStr toolName) (if truthy args then args else JObj []) None
            (stopIfOpen s))"

definition text_step :: "stream_env \<Rightarrow> string \<Rightarrow> stream_state \<Rightarrow> stream_state" where
  "text_step env fullText s =
     (if fullText \<noteq> [] then
        let delta = (if startsWith fullText (emittedText s)
                     then drop (length (emittedText s)) fullText
                     else fullText)
        in if delta \<noteq> [] then
             (case processMcpXmlBridgeDelta (jsonParse env) delta (mcpXmlBuffer s, inMcpXml s) of
                (actions, buffer, inXml) \<Rightarrow>
                  (foldl (apply_action env) (s\<lparr>mcpXmlBuffer := buffer, inMcpXml := inXml\<rparr>) actions)
                    \<lparr>emittedText := fullText\<rparr>)
           else s
      else s)"

text \<open>The body of the loop of the data handler for one payload.\<close>

definition on_payload :: "stream_env \<Rightarrow> json \<Rightarrow> stream_state \<Rightarrow> bool \<times> stream_state" where
  "on_payload env payload s =
     (let currentFinishReason = (case member payload ''candidates'' of
                                   Some (JArr (candidate # _)) \<Rightarrow> member candidate ''finishReason''
                                 | _ \<Rightarrow> None);
          s0 = (if truthy_opt currentFinishReason then s\<lparr>finishReason := currentFinishReason\<rparr> else s);
          parts = extractGeminiParts (Some payload);
          rawThoughtSignature = extractGeminiThoughtSignature (Some payload);
          thoughtSignature = (if isAntigravityVendor env
                              then JStr (sanitizeThoughtSignatureForAntigravity rawThoughtSignature)
                              else rawThoughtSignature);
          fullThought = extractGeminiThoughtText (Some payload);
          fullText = extractGeminiText (Some payload);
          first = (if wantsThinkingBlockFirst env
                   then and_then (signature_step env thoughtSignature s0)
                          (\<lambda>s. (False, thought_step env fullThought s))
                   else (False, s0))
      in and_then (and_then (and_then first (function_call_loop env parts))
                     (signature_step env thoughtSignature))
           (\<lambda>s. (False, text_step env fullText (thought_step env fullThought s))))"

subsection \<open>The rescue after a stream without finish reason\<close>

definition find_tool_use :: "json list \<Rightarrow> json option" where
  "find_tool_use content =
     (case filter (\<lambda>b. is_str (member b ''type'') ''tool_use'' \<and> truthy_opt (member b ''name'')) content of
        [] \<Rightarrow> None
      | b # _ \<Rightarrow> Some b)"

text \<open>
  Emitting a rescued tool use.  The call is inside the \<^verbatim>\<open>try\<close> of the rescue, so an
  exception of \<^verbatim>\<open>emitToolUseBlock\<close> only ends the rescue.
\<close>

definition emit_rescued :: "stream_env \<Rightarrow> json \<Rightarrow> stream_state \<Rightarrow> stream_state" where
  "emit_rescued env b s =
     snd (emitToolUseBlock env (the (member b ''name''))
            (case member b ''input'' of Some v \<Rightarrow> v | None \<Rightarrow> JNull) (member b ''id'')
            ((stopIfOpen s)\<lparr>currentBlockType := Some BToolUse\<rparr>))"

definition rescue_text :: "json list \<Rightarrow> stream_state \<Rightarrow> stream_state" where
  "rescue_text rescuedContent s =
     (if emittedText s = [] then
        let rescuedText =
              concat (map (\<lambda>b. toString (the (member b ''text'')))
                (filter (\<lambda>b. is_str (member b ''type'') ''text'' \<and> is_string (member b ''text'')
                              \<and> truthy_opt (member b ''text'')) rescuedContent))
        in if rescuedText \<noteq> [] then
             let s1 = (switchBlockType BText s)\<lparr>emittedText := rescuedText\<rparr>
             in writeAnthropicSseEvent (ContentBlockDelta (currentIndex s1) (TextDelta rescuedText)) s1
           else s
      else s)"

text \<open>\<^verbatim>\<open>const payload = response || rawResponse\<close>\<close>

definition unwrap_response :: "json option \<Rightarrow> json option" where
  "unwrap_response rawResponse = or_else (chain rawResponse ''response'') rawResponse"

definition tryRescueAfterMissingFinishReason :: "stream_env \<Rightarrow> stream_state \<Rightarrow> stream_state" where
  "tryRescueAfterMissingFinishReason env s =
     (if \<not> isAntigravityVendor env then s
      else if rescueAttempted s then s
      else if emittedAnyToolUse s then s
      else
        let s1 = s\<lparr>rescueAttempted := True, written := written s @ [UpstreamCall False]\<rparr> in
        case rescueResponse env of
          Threw \<Rightarrow> s1
        | Returned rawResponse \<Rightarrow>
            (case convertGeminiPayloadToAnthropicContent (jsonParse env) (newToolUseId env)
                    (idCounter s1) (unwrap_response rawResponse) of
               (rescuedContent, k) \<Rightarrow>
                 let s2 = s1\<lparr>idCounter := k\<rparr> in
                 case find_tool_use rescuedContent of
                   Some rescuedToolUse \<Rightarrow> emit_rescued env rescuedToolUse s2
                 | None \<Rightarrow>
                     if plannedToolName env \<noteq> None \<and> plannedToolName env \<noteq> Some []
                        \<and> \<not> forcedRescueAttempted s2 then
                       let s3 = s2\<lparr>forcedRescueAttempted := True,
                                    written := written s2 @ [UpstreamCall True]\<rparr> in
                       case forcedRescueResponse env of
                         Threw \<Rightarrow> s3
                       | Returned forcedRawResponse \<Rightarrow>
                           (case convertGeminiPayloadToAnthropicContent (jsonParse env) (newToolUseId env)
                                   (idCounter s3) (unwrap_response forcedRawResponse) of
                              (forcedContent, k') \<Rightarrow>
                                let s4 = s3\<lparr>idCounter := k'\<rparr> in
                                case find_tool_use forcedContent of
                                  Some forcedToolUse \<Rightarrow> emit_rescued env forcedToolUse s4
                                | None \<Rightarrow> rescue_text rescuedContent s4)
                     else rescue_text rescuedContent s2))"

subsection \<open>Finishing the response\<close>

text \<open>The text sent when the stream ended with nothing to show, as UTF-8.\<close>

definition fallbackText :: string where
  "fallbackText =
     [CHR 0xE4, CHR 0xB8, CHR 0x8A, CHR 0xE6, CHR 0xB8, CHR 0xB8, CHR 0xE6, CHR 0xB5,
      CHR 0x81, CHR 0xE5, CHR 0xBC, CHR 0x8F, CHR 0xE8, CHR 0xBF, CHR 0x9E, CHR 0xE6,
      CHR 0x8E, CHR 0xA5, CHR 0xE5, CHR 0xBC, CHR 0x82, CHR 0xE5, CHR 0xB8, CHR 0xB8,
      CHR 0xE4, CHR 0xB8, CHR 0xAD, CHR 0xE6, CHR 0x96, CHR 0xAD, CHR 0xEF, CHR 0xBC,
      CHR 0x88, CHR 0xE6, CHR 0x97, CHR 0xA0, CHR 0xE6, CHR 0x9C, CHR 0x89, CHR 0xE6,
      CHR 0x95, CHR 0x88, CHR 0xE5, CHR 0x86, CHR 0x85, CHR 0xE5, CHR 0xAE, CHR 0xB9,
      CHR 0xEF, CHR 0xBC, CHR 0x89, CHR 0xE3, CHR 0x80, CHR 0x82, CHR 0xE8, CHR 0xAF,
      CHR 0xB7, CHR 0xE9, CHR 0x87, CHR 0x8D, CHR 0xE8, CHR 0xAF, CHR 0x95, CHR 0xE3,
      CHR 0x80, CHR 0x82]"

fun flush_all :: "stream_env \<Rightarrow> string list \<Rightarrow> stream_state \<Rightarrow> bool \<times> stream_state" where
  "flush_all env [] s = (False, s)"
| "flush_all env (i # ids) s = and_then (flushPendingToolCallById env i True s) (flush_all env ids)"

text \<open>Closing the open block, \<^verbatim>\<open>message_delta\<close>, \<^verbatim>\<open>message_stop\<close> and the end of the response.\<close>

definition close_message :: "string \<Rightarrow> stream_state \<Rightarrow> stream_state" where
  "close_message stop_reason s =
     (let s1 = stopIfOpen s
      in s1\<lparr>written := written s1 @ [Sse (MessageDelta stop_reason), Sse MessageStop, ResEnd]\<rparr>)"

definition hasAnyContent :: "stream_state \<Rightarrow> bool" where
  "hasAnyContent s = (emittedText s \<noteq> [] \<or> emittedAnyToolUse s \<or> emittedThinking s \<noteq> [])"

text \<open>
  The parts of \<^verbatim>\<open>finalize\<close>, in its order.  A tag that never closed is sent as the text
  it was.
\<close>

definition leftover_text :: "stream_state \<Rightarrow> stream_state" where
  "leftover_text s =
     (if mcpXmlBuffer s \<noteq> [] then
        let raw = mcpXmlBuffer s;
            s1 = switchBlockType BText (s\<lparr>mcpXmlBuffer := [], inMcpXml := False\<rparr>)
        in writeAnthropicSseEvent (ContentBlockDelta (currentIndex s1) (TextDelta raw)) s1
      else s)"

text \<open>
  Without a finish reason the response completes normally when anything was emitted;
  otherwise the rescue is tried, and when it brings nothing either, the fallback text
  is sent.  With a finish reason the stop reason is mapped from it.
\<close>

definition complete_response :: "stream_env \<Rightarrow> stream_state \<Rightarrow> stream_state" where
  "complete_response env s =
     (if \<not> truthy_opt (finishReason s) then
        (if hasAnyContent s
         then close_message (if emittedAnyToolUse s then ''tool_use'' else ''end_turn'') s
         else
           let s1 = tryRescueAfterMissingFinishReason env s in
           if hasAnyContent s1
           then close_message (if emittedAnyToolUse s1 then ''tool_use'' else ''end_turn'') s1
           else
             let s2 = (switchBlockType BText s1)\<lparr>emittedText := fallbackText\<rparr>;
                 s3 = writeAnthropicSseEvent
                        (ContentBlockDelta (currentIndex s2) (TextDelta fallbackText)) s2
             in close_message ''end_turn'' s3)
      else close_message
             (if emittedAnyToolUse s then ''tool_use''
              else mapGeminiFinishReasonToAnthropicStopReason (unicodeUpperCase env) (finishReason s)) s)"

text \<open>
  \<^verbatim>\<open>finalize\<close>.  When flushing a pending call throws, the promise is rejected and nothing
  more is written.  Recording the usage is left out.
\<close>

definition finalize :: "stream_env \<Rightarrow> stream_state \<Rightarrow> stream_state" where
  "finalize env s =
     (if finished s then s
      else
        case flush_all env (map fst (pendingToolCallsById s)) (s\<lparr>finished := True\<rparr>) of
          (threw, s1) \<Rightarrow> if threw then s1 else complete_response env (leftover_text s1))"

subsection \<open>The handlers and a whole response\<close>

text \<open>
  A line of the backend stream as \<^verbatim>\<open>parseSSELine\<close> classifies it: a line to skip, a line
  whose JSON does not parse, or a line with its parsed data.  The data handler is given
  the complete lines of what has arrived; the bytes of an unfinished line wait in
  \<^verbatim>\<open>buffer\<close> for the next chunk.
\<close>

datatype sse_line = Control | Invalid | Data json

definition on_line :: "stream_env \<Rightarrow> sse_line \<Rightarrow> stream_state \<Rightarrow> bool \<times> stream_state" where
  "on_line env line s =
     (case line of
        Control \<Rightarrow> (False, s)
      | Invalid \<Rightarrow> (False, s)
      | Data d \<Rightarrow>
          if \<not> truthy d then (False, s)
          else on_payload env (case or_else (member d ''response'') (Some d) of Some p \<Rightarrow> p | None \<Rightarrow> d) s)"

fun on_lines :: "stream_env \<Rightarrow> sse_line list \<Rightarrow> stream_state \<Rightarrow> bool \<times> stream_state" where
  "on_lines env [] s = (False, s)"
| "on_lines env (line # lines) s = and_then (on_line env line s) (on_lines env lines)"

text \<open>
  What the backend stream and the clock can do: deliver lines, end, fail with a message,
  and let one of the two timers expire.  An exception thrown inside a handler ends that
  handler; what it had written and assigned stays.
\<close>

datatype upstream_event =
    Chunk "sse_line list"
  | StreamEnd
  | StreamError string
  | ActivityTimeout
  | FirstByteTimeout

definition on_data :: "stream_env \<Rightarrow> sse_line list \<Rightarrow> stream_state \<Rightarrow> stream_state" where
  "on_data env lines s =
     (let s1 = s\<lparr>activityArmed := True, receivedAnyUpstreamBytes := True, firstByteArmed := False\<rparr>
      in if finished s1 then s1 else snd (on_lines env lines s1))"

definition on_end :: "stream_env \<Rightarrow> stream_state \<Rightarrow> stream_state" where
  "on_end env s = finalize env (s\<lparr>activityArmed := False, firstByteArmed := False\<rparr>)"

definition on_error :: "string \<Rightarrow> stream_state \<Rightarrow> stream_state" where
  "on_error msg s =
     (let s1 = s\<lparr>activityArmed := False, firstByteArmed := False\<rparr>
      in if finished s1 then s1
         else s1\<lparr>written := written s1 @
                    [Sse (ErrorEvent ''api_error'' (if msg = [] then ''Upstream error'' else msg)),
                     ResEnd]\<rparr>)"

definition on_activity_timeout :: "stream_state \<Rightarrow> stream_state" where
  "on_activity_timeout s =
     (if \<not> activityArmed s then s
      else
        let s1 = s\<lparr>activityArmed := False\<rparr>
        in if finished s1 then s1
           else s1\<lparr>finished := True, firstByteArmed := False,
                   written := written s1 @
                     [Sse (ErrorEvent ''overloaded_error''
                             ''Upstream stream timed out (zombie connection). Please try again.''),
                      ResEnd]\<rparr>)"

definition on_first_byte_timeout :: "stream_state \<Rightarrow> stream_state" where
  "on_first_byte_timeout s =
     (if \<not> firstByteArmed s then s
      else
        let s1 = s\<lparr>firstByteArmed := False\<rparr>
        in if finished s1 \<or> receivedAnyUpstreamBytes s1 then s1
           else s1\<lparr>finished := True,
                   written := written s1 @
                     [Sse (ErrorEvent ''overloaded_error''
                             ''Upstream stream timed out before first byte. Please try again.''),
                      ResEnd]\<rparr>)"

text \<open>The variables when the handlers are installed: \<^verbatim>\<open>message_start\<close> is written, and
  the thinking block with index 0 is open when thoughts were asked of Antigravity.\<close>

definition initial_state :: "stream_env \<Rightarrow> stream_state" where
  "initial_state env =
     \<lparr>written = Sse (MessageStart (messageId env) (responseModel env)) #
                 (if wantsThinkingBlockFirst env then [Sse (ContentBlockStart 0 ThinkingStart)] else []),
      emittedText = [],
      emittedThinking = [],
      emittedThoughtSignature = [],
      finished = False,
      finishReason = None,
      emittedAnyToolUse = False,
      rescueAttempted = False,
      forcedRescueAttempted = False,
      emittedToolCallKeys = [],
      pendingToolCallsById = [],
      mcpXmlBuffer = [],
      inMcpXml = False,
      currentIndex = (if wantsThinkingBlockFirst env then 0 else - 1),
      currentBlockType = (if wantsThinkingBlockFirst env then Some BThinking else None),
      receivedAnyUpstreamBytes = False,
      activityArmed = True,
      firstByteArmed = isAntigravityVendor env,
      idCounter = 0\<rparr>"

definition handle :: "stream_env \<Rightarrow> stream_state \<Rightarrow> upstream_event \<Rightarrow> stream_state" where
  "handle env s ev =
     (case ev of
        Chunk lines \<Rightarrow> on_data env lines s
      | StreamEnd \<Rightarrow> on_end env s
      | StreamError msg \<Rightarrow> on_error msg s
      | ActivityTimeout \<Rightarrow> on_activity_timeout s
      | FirstByteTimeout \<Rightarrow> on_first_byte_timeout s)"

definition stream_response :: "stream_env \<Rightarrow> upstream_event list \<Rightarrow> effect list" where
  "stream_response env events = written (foldl (handle env) (initial_state env) events)"

subsection \<open>Examples\<close>

definition plain_env :: stream_env where
  "plain_env =
     \<lparr>isAntigravityVendor = False, includeThoughts = False, messageId = ''msg_1'',
      responseModel = ''claude-x'', plannedToolName = None,
      unicodeUpperCase = (\<lambda>s. s), unicodeLowerCase = (\<lambda>s. s), jsonParse = no_parse,
      newToolUseId = numbered_ids, rescueResponse = Threw, forcedRescueResponse = Threw\<rparr>"

definition hello_payload :: json where
  "hello_payload =
     JObj [(''candidates'',
            JArr [JObj [(''content'', JObj [(''parts'', JArr [JObj [(''text'', JStr ''Hello'')]])])]])]"

definition grep_payload :: json where
  "grep_payload =
     JObj [(''candidates'',
            JArr [JObj [(''content'',
                        JObj [(''parts'',
                               JArr [JObj [(''functionCall'',
                                           JObj [(''name'', JStr ''Grep''),
                                                 (''args'', JObj [(''query'', JStr ''foo'')])])]])])]])]"

text \<open>The same call with an identifier, announcing that more will follow.\<close>

definition waiting_grep_payload :: json where
  "waiting_grep_payload =
     JObj [(''candidates'',
            JArr [JObj [(''content'',
                        JObj [(''parts'',
                               JArr [JObj [(''functionCall'',
                                           JObj [(''name'', JStr ''Grep''),
                                                 (''args'', JObj [(''query'', JStr ''foo'')]),
                                                 (''id'', JStr ''call_1''),
                                                 (''willContinue'', JBool True)])]])])]])]"

section \<open>The order of the content block events\<close>

text \<open>
  The order asked of the content block events of one response, as a check that reads
  the trace from left to right.  It keeps the highest index started so far (\<open>-1\<close> before
  the first block, indices are not negative) and the index of the block that is open,
  if any.  A block may start only when no block is open and with an index above every
  index started before; a delta and a stop must carry the index of the open block, and
  the stop closes it.  Events other than those of content blocks do not matter.
\<close>

type_synonym block_order = "int \<times> int option"

fun check_effect :: "block_order \<Rightarrow> effect \<Rightarrow> block_order option" where
  "check_effect (highest, opened) (Sse (ContentBlockStart i b)) =
     (if opened = None \<and> highest < i then Some (i, Some i) else None)"
| "check_effect (highest, opened) (Sse (ContentBlockDelta i d)) =
     (if opened = Some i then Some (highest, opened) else None)"
| "check_effect (highest, opened) (Sse (ContentBlockStop i)) =
     (if opened = Some i then Some (highest, None) else None)"
| "check_effect st e = Some st"

fun check_trace :: "block_order \<Rightarrow> effect list \<Rightarrow> block_order option" where
  "check_trace st [] = Some st"
| "check_trace st (e # es) =
     (case check_effect st e of None \<Rightarrow> None | Some st' \<Rightarrow> check_trace st' es)"

definition blocks_in_order :: "effect list \<Rightarrow> bool" where
  "blocks_in_order trace = (check_trace (- 1, None) trace \<noteq> None)"

text \<open>
  How the variables of a response go with its trace: the trace is in order, the highest
  index started is \<^verbatim>\<open>currentIndex\<close>, and a block is open exactly when \<^verbatim>\<open>currentBlockType\<close>
  is \<^verbatim>\<open>text\<close> or \<^verbatim>\<open>thinking\<close>, with that index.  \<open>block_closed\<close> is the same after the open
  block has been stopped and before \<^verbatim>\<open>currentBlockType\<close> is assigned.
\<close>

definition open_index :: "stream_state \<Rightarrow> int option" where
  "open_index s =
     (if currentBlockType s = Some BText \<or> currentBlockType s = Some BThinking
      then Some (currentIndex s) else None)"

definition in_step :: "stream_state \<Rightarrow> bool" where
  "in_step s = (check_trace (- 1, None) (written s) = Some (currentIndex s, open_index s))"

definition block_closed :: "stream_state \<Rightarrow> bool" where
  "block_closed s = (check_trace (- 1, None) (written s) = Some (currentIndex s, None))"

text \<open>Once the response is finished nothing more is written, and the trace is in order.\<close>

definition response_ok :: "stream_state \<Rightarrow> bool" where
  "response_ok s = (in_step s \<or> (finished s \<and> blocks_in_order (written s)))"

chapter \<open>Properties\<close>

section \<open>Stop reason of a non-streaming response: the priority rule\<close>








section \<open>Signature cache: expiry and replacement\<close>

lemma map_of_delete_keys:
  "map_of (delete_keys ks cache) k = (if k \<in> set ks then None else map_of cache k)"
  unfolding delete_keys_def
  by (induction ks arbitrary: cache) (auto simp: AList.delete_conv')

lemma map_of_cleanupCache:
  "map_of (cleanupCache now cache limit) k = Some e \<Longrightarrow> map_of cache k = Some e"
  by (auto simp: cleanupCache_def Let_def map_of_delete_keys split: if_splits)

lemma getToolSignature_expired:
  assumes "toolId \<noteq> []" "map_of (toolSignatureCache c) toolId = Some e"
    and "isExpired now (timestamp e)"
    and "c' = c\<lparr>toolSignatureCache := AList.delete toolId (toolSignatureCache c)\<rparr>"
  shows "getToolSignature now toolId c = (None, c')
       \<and> map_of (toolSignatureCache c') toolId = None
       \<and> getToolSignature now' toolId c' = (None, c')"
  using assms by (simp add: getToolSignature_def AList.delete_conv')

lemma getSignatureFamily_expired:
  assumes "sig \<noteq> []" "map_of (modelFamilyCache c) sig = Some e"
    and "isExpired now (timestamp e)"
    and "c' = c\<lparr>modelFamilyCache := AList.delete sig (modelFamilyCache c)\<rparr>"
  shows "getSignatureFamily now sig c = (None, c')
       \<and> map_of (modelFamilyCache c') sig = None
       \<and> getSignatureFamily now' sig c' = (None, c')"
  using assms by (simp add: getSignatureFamily_def AList.delete_conv')

lemma getSessionSignature_expired:
  assumes "sessionId \<noteq> []" "map_of (sessionLatestSignatureCache c) sessionId = Some e"
    and "isExpired now (timestamp e)"
    and "c' = c\<lparr>sessionLatestSignatureCache := AList.delete sessionId (sessionLatestSignatureCache c)\<rparr>"
  shows "getSessionSignature now sessionId c = (None, c')
       \<and> map_of (sessionLatestSignatureCache c') sessionId = None
       \<and> getSessionSignature now' sessionId c' = (None, c')"
  using assms by (simp add: getSessionSignature_def AList.delete_conv')

lemma getCachedSignature_expired:
  assumes "sessionId \<noteq> []" "thinkingText \<noteq> []" "hashText H thinkingText \<noteq> []"
    and "map_of (signatureCache c) sessionId = Some m"
    and "map_of m (hashText H thinkingText) = Some e"
    and "isExpired now (timestamp e)"
    and "c' = c\<lparr>signatureCache :=
                  AList.update sessionId (AList.delete (hashText H thinkingText) m) (signatureCache c)\<rparr>"
  shows "getCachedSignature H now sessionId thinkingText c = (None, c')
       \<and> map_of (signatureCache c') sessionId = Some (AList.delete (hashText H thinkingText) m)
       \<and> getCachedSignature H now' sessionId thinkingText c' = (None, c')"
  using assms by (simp add: getCachedSignature_def AList.delete_conv' AList.update_conv' Let_def)

text \<open>
  C6.  Each of the four lookups, applied to a key whose entry is older than the TTL of
  two hours, returns not-found and leaves the cache with that entry deleted; a lookup of
  the same key repeated at any later moment returns not-found again and changes nothing.
  Keys are non-empty, as every key stored by the cache is, and the text hash of the
  original surface is non-empty, as a digest is.
\<close>

theorem expired_lookup_deletes_then_not_found:
  assumes ttl: "now - t > 2 * 60 * 60 * 1000" and ts: "timestamp e = t" "timestamp f = t"
    and key: "key \<noteq> []"
  shows "(map_of (toolSignatureCache c) key = Some e \<longrightarrow>
            getToolSignature now key c =
              (None, c\<lparr>toolSignatureCache := AList.delete key (toolSignatureCache c)\<rparr>)
          \<and> getToolSignature now' key (snd (getToolSignature now key c)) =
              (None, snd (getToolSignature now key c))
          \<and> map_of (toolSignatureCache (snd (getToolSignature now key c))) key = None)
       \<and> (map_of (modelFamilyCache c) key = Some f \<longrightarrow>
            getSignatureFamily now key c =
              (None, c\<lparr>modelFamilyCache := AList.delete key (modelFamilyCache c)\<rparr>)
          \<and> getSignatureFamily now' key (snd (getSignatureFamily now key c)) =
              (None, snd (getSignatureFamily now key c))
          \<and> map_of (modelFamilyCache (snd (getSignatureFamily now key c))) key = None)
       \<and> (map_of (sessionLatestSignatureCache c) key = Some e \<longrightarrow>
            getSessionSignature now key c =
              (None, c\<lparr>sessionLatestSignatureCache := AList.delete key (sessionLatestSignatureCache c)\<rparr>)
          \<and> getSessionSignature now' key (snd (getSessionSignature now key c)) =
              (None, snd (getSessionSignature now key c))
          \<and> map_of (sessionLatestSignatureCache (snd (getSessionSignature now key c))) key = None)
       \<and> (text \<noteq> [] \<and> hashText H text \<noteq> [] \<and> map_of (signatureCache c) key = Some m
            \<and> map_of m (hashText H text) = Some e \<longrightarrow>
            getCachedSignature H now key text c =
              (None, c\<lparr>signatureCache :=
                         AList.update key (AList.delete (hashText H text) m) (signatureCache c)\<rparr>)
          \<and> getCachedSignature H now' key text (snd (getCachedSignature H now key text c)) =
              (None, snd (getCachedSignature H now key text c))
          \<and> (\<exists>m'. map_of (signatureCache (snd (getCachedSignature H now key text c))) key = Some m'
                 \<and> map_of m' (hashText H text) = None))"
proof -
  have ex: "isExpired now (timestamp e)" "isExpired now (timestamp f)"
    using ttl ts by (simp_all add: isExpired_def SIGNATURE_CACHE_TTL_MS_def)
  show ?thesis
  proof (intro conjI impI)
    assume a: "map_of (toolSignatureCache c) key = Some e"
    note r = getToolSignature_expired [OF key a ex(1) refl]
    show "getToolSignature now key c =
            (None, c\<lparr>toolSignatureCache := AList.delete key (toolSignatureCache c)\<rparr>)"
      using r by simp
    show "getToolSignature now' key (snd (getToolSignature now key c)) =
            (None, snd (getToolSignature now key c))"
      using r [of now'] by simp
    show "map_of (toolSignatureCache (snd (getToolSignature now key c))) key = None"
      using r by simp
  next
    assume a: "map_of (modelFamilyCache c) key = Some f"
    note r = getSignatureFamily_expired [OF key a ex(2) refl]
    show "getSignatureFamily now key c =
            (None, c\<lparr>modelFamilyCache := AList.delete key (modelFamilyCache c)\<rparr>)"
      using r by simp
    show "getSignatureFamily now' key (snd (getSignatureFamily now key c)) =
            (None, snd (getSignatureFamily now key c))"
      using r [of now'] by simp
    show "map_of (modelFamilyCache (snd (getSignatureFamily now key c))) key = None"
      using r by simp
  next
    assume a: "map_of (sessionLatestSignatureCache c) key = Some e"
    note r = getSessionSignature_expired [OF key a ex(1) refl]
    show "getSessionSignature now key c =
            (None, c\<lparr>sessionLatestSignatureCache := AList.delete key (sessionLatestSignatureCache c)\<rparr>)"
      using r by simp
    show "getSessionSignature now' key (snd (getSessionSignature now key c)) =
            (None, snd (getSessionSignature now key c))"
      using r [of now'] by simp
    show "map_of (sessionLatestSignatureCache (snd (getSessionSignature now key c))) key = None"
      using r by simp
  next
    assume a: "text \<noteq> [] \<and> hashText H text \<noteq> [] \<and> map_of (signatureCache c) key = Some m
            \<and> map_of m (hashText H text) = Some e"
    then have a1: "text \<noteq> []" and a2: "hashText H text \<noteq> []"
      and a3: "map_of (signatureCache c) key = Some m" and a4: "map_of m (hashText H text) = Some e"
      by simp_all
    note r = getCachedSignature_expired [OF key a1 a2 a3 a4 ex(1) refl]
    show "getCachedSignature H now key text c =
            (None, c\<lparr>signatureCache :=
                       AList.update key (AList.delete (hashText H text) m) (signatureCache c)\<rparr>)"
      using r by simp
    show "getCachedSignature H now' key text (snd (getCachedSignature H now key text c)) =
            (None, snd (getCachedSignature H now key text c))"
      using r [of now'] by simp
    show "\<exists>m'. map_of (signatureCache (snd (getCachedSignature H now key text c))) key = Some m'
             \<and> map_of m' (hashText H text) = None"
      using r by (simp add: AList.delete_conv')
  qed
qed

theorem expired_lookup_deletes_then_not_found_witness:
  "getSessionSignature 7200001 ''session-1'' stale_caches =
     (None, stale_caches\<lparr>sessionLatestSignatureCache :=
                           AList.delete ''session-1'' (sessionLatestSignatureCache stale_caches)\<rparr>)
   \<and> getSessionSignature 7200002 ''session-1'' (snd (getSessionSignature 7200001 ''session-1'' stale_caches)) =
     (None, snd (getSessionSignature 7200001 ''session-1'' stale_caches))
   \<and> map_of (sessionLatestSignatureCache (snd (getSessionSignature 7200001 ''session-1'' stale_caches)))
        ''session-1'' = None
   \<and> getCachedSignature fixed_digest 7200001 ''session-1'' ''thought'' stale_caches =
       (None, stale_caches\<lparr>signatureCache :=
          AList.update ''session-1''
            (AList.delete (hashText fixed_digest ''thought'') [(replicate 16 (CHR ''0''), old_entry)])
            (signatureCache stale_caches)\<rparr>)
   \<and> getCachedSignature fixed_digest 7200002 ''session-1'' ''thought''
        (snd (getCachedSignature fixed_digest 7200001 ''session-1'' ''thought'' stale_caches)) =
     (None, snd (getCachedSignature fixed_digest 7200001 ''session-1'' ''thought'' stale_caches))"
proof -
  have ttl: "(7200001::int) - 0 > 2 * 60 * 60 * 1000" by simp
  have ts: "timestamp old_entry = 0"
    "timestamp \<lparr>timestamp = 0, modelFamily = ''gemini-2.5''\<rparr> = 0"
    by (simp_all add: old_entry_def)
  have key: "''session-1'' \<noteq> []" by simp
  have h: "hashText fixed_digest ''thought'' = replicate 16 (CHR ''0'')"
    by (simp add: hashText_def fixed_digest_def TEXT_HASH_LENGTH_def)
  have s: "map_of (sessionLatestSignatureCache stale_caches) ''session-1'' = Some old_entry"
    by (simp add: stale_caches_def)
  have l: "''thought'' \<noteq> [] \<and> hashText fixed_digest ''thought'' \<noteq> []
        \<and> map_of (signatureCache stale_caches) ''session-1'' = Some [(replicate 16 (CHR ''0''), old_entry)]
        \<and> map_of [(replicate 16 (CHR ''0''), old_entry)] (hashText fixed_digest ''thought'') = Some old_entry"
    unfolding h by (simp add: stale_caches_def)
  note T = expired_lookup_deletes_then_not_found [OF ttl ts key,
      of stale_caches 7200002 "''thought''" fixed_digest "[(replicate 16 (CHR ''0''), old_entry)]"]
  from T s have
    "getSessionSignature 7200001 ''session-1'' stale_caches =
       (None, stale_caches\<lparr>sessionLatestSignatureCache :=
                             AList.delete ''session-1'' (sessionLatestSignatureCache stale_caches)\<rparr>)
     \<and> getSessionSignature 7200002 ''session-1'' (snd (getSessionSignature 7200001 ''session-1'' stale_caches)) =
       (None, snd (getSessionSignature 7200001 ''session-1'' stale_caches))
     \<and> map_of (sessionLatestSignatureCache (snd (getSessionSignature 7200001 ''session-1'' stale_caches)))
          ''session-1'' = None"
    by blast
  moreover from T l have
    "getCachedSignature fixed_digest 7200001 ''session-1'' ''thought'' stale_caches =
       (None, stale_caches\<lparr>signatureCache :=
          AList.update ''session-1''
            (AList.delete (hashText fixed_digest ''thought'') [(replicate 16 (CHR ''0''), old_entry)])
            (signatureCache stale_caches)\<rparr>)
     \<and> getCachedSignature fixed_digest 7200002 ''session-1'' ''thought''
          (snd (getCachedSignature fixed_digest 7200001 ''session-1'' ''thought'' stale_caches)) =
       (None, snd (getCachedSignature fixed_digest 7200001 ''session-1'' ''thought'' stale_caches))"
    by blast
  ultimately show ?thesis by blast
qed









section \<open>Transport: failing fast on a cooling model\<close>

lemma ceil_seconds_bounds:
  "1000 * (ceil_seconds ms - 1) < ms \<and> ms \<le> 1000 * ceil_seconds ms"
proof -
  define q where "q = (ms + 999) div 1000"
  define r where "r = (ms + 999) mod 1000"
  have "q * 1000 + r = ms + 999"
    unfolding q_def r_def by (rule div_mult_mod_eq)
  moreover have "0 \<le> r" "r < 1000"
    unfolding r_def by simp_all
  ultimately have "1000 * (q - 1) < ms" "ms \<le> 1000 * q"
    by simp_all
  then show ?thesis
    unfolding ceil_seconds_def q_def by simp
qed

lemma ceil_seconds_pos: "0 < ms \<Longrightarrow> 1 \<le> ceil_seconds ms"
  using ceil_seconds_bounds [of ms] by linarith

text \<open>
  C9.  When the cooldown map holds an entry for the (trimmed) target model whose instant
  \<open>untilMs\<close> lies in the future, \<open>request\<close> throws the synthetic error with status 429,
  whose \<^verbatim>\<open>retry-after\<close> header is the remaining cooldown in seconds, rounded up, and it
  posts to no URL.  When the instant of an entry has passed, the lookup removes the entry
  and the request continues with the network phase.
\<close>

theorem request_fails_fast_while_cooling:
  assumes key: "trim model \<noteq> []" and entry: "cds (trim model) = Some entry"
    and set: "untilMs entry \<noteq> 0"
  shows "(now < untilMs entry \<longrightarrow>
            (\<exists>err. request now model cds attemptRequest = (Inl err, [], cds)
               \<and> err_status err = 429
               \<and> err_headers err = [(''retry-after'', string_of_int (ceil_seconds (untilMs entry - now)))]
               \<and> 1000 * (ceil_seconds (untilMs entry - now) - 1) < untilMs entry - now
               \<and> untilMs entry - now \<le> 1000 * ceil_seconds (untilMs entry - now)))
       \<and> (untilMs entry \<le> now \<longrightarrow>
            request now model cds attemptRequest = attemptRequest (cds(trim model := None)))"
proof (intro conjI impI)
  assume cooling: "now < untilMs entry"
  then have pos: "0 < untilMs entry - now" by simp
  have info: "getModelCooldownInfo now model cds =
      (\<lparr>reason = reason entry, remainingMs = untilMs entry - now\<rparr>, cds)"
    using key entry set cooling by (simp add: getModelCooldownInfo_def Let_def)
  have m: "max 1 (ceil_seconds (untilMs entry - now)) = ceil_seconds (untilMs entry - now)"
    using ceil_seconds_pos [OF pos] by simp
  show "\<exists>err. request now model cds attemptRequest = (Inl err, [], cds)
               \<and> err_status err = 429
               \<and> err_headers err = [(''retry-after'', string_of_int (ceil_seconds (untilMs entry - now)))]
               \<and> 1000 * (ceil_seconds (untilMs entry - now) - 1) < untilMs entry - now
               \<and> untilMs entry - now \<le> 1000 * ceil_seconds (untilMs entry - now)"
    using pos ceil_seconds_bounds [of "untilMs entry - now"]
    by (simp add: request_def info cooldown_error_def Let_def m)
next
  assume passed: "untilMs entry \<le> now"
  then have "getModelCooldownInfo now model cds = (no_cooldown, cds(trim model := None))"
    using key entry set by (simp add: getModelCooldownInfo_def Let_def)
  then show "request now model cds attemptRequest = attemptRequest (cds(trim model := None))"
    by (simp add: request_def no_cooldown_def)
qed

theorem request_fails_fast_while_cooling_witness:
  "(\<exists>err. request 10000 '' gemini-3-pro '' cooling one_post = (Inl err, [], cooling)
        \<and> err_status err = 429
        \<and> err_headers err = [(''retry-after'', string_of_int (ceil_seconds (20500 - 10000)))]
        \<and> 1000 * (ceil_seconds (20500 - 10000) - 1) < 20500 - (10000::int)
        \<and> 20500 - (10000::int) \<le> 1000 * ceil_seconds (20500 - 10000))
   \<and> ceil_seconds (20500 - 10000) = 11
   \<and> request 20500 '' gemini-3-pro '' cooling one_post = one_post (cooling(''gemini-3-pro'' := None))"
proof -
  have t: "trim '' gemini-3-pro '' = ''gemini-3-pro''"
    by code_simp
  have key: "trim '' gemini-3-pro '' \<noteq> []"
    unfolding t by simp
  have entry: "cooling (trim '' gemini-3-pro '') =
      Some \<lparr>reason = ''MODEL_CAPACITY_EXHAUSTED'', untilMs = 20500\<rparr>"
    unfolding t by (simp add: cooling_def)
  have set: "untilMs \<lparr>reason = ''MODEL_CAPACITY_EXHAUSTED'', untilMs = 20500\<rparr> \<noteq> 0"
    by simp
  have c: "ceil_seconds (20500 - 10000) = 11"
    by (simp add: ceil_seconds_def)
  note T = request_fails_fast_while_cooling
    [where model = "'' gemini-3-pro ''" and cds = cooling and attemptRequest = one_post
       and entry = "\<lparr>reason = ''MODEL_CAPACITY_EXHAUSTED'', untilMs = 20500\<rparr>",
     OF key entry set]
  have a: "(10000::int) < untilMs \<lparr>reason = ''MODEL_CAPACITY_EXHAUSTED'', untilMs = 20500\<rparr>"
    and b: "untilMs \<lparr>reason = ''MODEL_CAPACITY_EXHAUSTED'', untilMs = 20500\<rparr> \<le> (20500::int)"
    and u: "untilMs \<lparr>reason = ''MODEL_CAPACITY_EXHAUSTED'', untilMs = 20500\<rparr> = 20500"
    by simp_all
  from T [of 10000] a have A:
    "\<exists>err. request 10000 '' gemini-3-pro '' cooling one_post = (Inl err, [], cooling)
        \<and> err_status err = 429
        \<and> err_headers err = [(''retry-after'', string_of_int (ceil_seconds (20500 - 10000)))]
        \<and> 1000 * (ceil_seconds (20500 - 10000) - 1) < 20500 - (10000::int)
        \<and> 20500 - (10000::int) \<le> 1000 * ceil_seconds (20500 - 10000)"
    unfolding u by (rule mp [OF conjunct1])
  from T [of 20500] b have B:
    "request 20500 '' gemini-3-pro '' cooling one_post = one_post (cooling(''gemini-3-pro'' := None))"
    unfolding t by (rule mp [OF conjunct2])
  from A B c show ?thesis by (intro conjI)
qed

section \<open>Thinking budget: clamping and removal\<close>

text \<open>
  C8 (amended).  For a model whose metadata declares thinking and a configuration whose
  thinking budget \<open>b\<close> is finite, the budget is first lowered to the declared maximum, then
  lowered to \<open>max 0 (e - 1)\<close> when it is not below the effective maximum \<open>e\<close> of output
  tokens (a non-zero \<^verbatim>\<open>maxOutputTokens\<close>, else the default of the model).  The thinking
  configuration is removed exactly when the resulting budget is non-negative and below
  the declared minimum; otherwise the resulting budget is what is sent.  In particular a
  negative budget is sent as it is, also when a minimum is declared.
\<close>

theorem thinking_budget_clamped_or_removed:
  assumes md: "thinking md = Some rng"
    and tc: "thinkingConfig gc = Some tc" "thinkingBudget tc = Some b"
    and c1: "c1 = (case thinking_max rng of Some m \<Rightarrow> min b m | None \<Rightarrow> b)"
    and c2: "c2 = (case effectiveMax md gc of
                     Some e \<Rightarrow> if e \<noteq> 0 \<and> e \<le> c1 then max 0 (e - 1) else c1
                   | None \<Rightarrow> c1)"
    and r: "r = normalizeAntigravityThinking normalizedModel (Some md) gc"
  shows "(thinkingConfig r = None \<longleftrightarrow> (\<exists>mn. thinking_min rng = Some mn \<and> 0 \<le> c2 \<and> c2 < mn))
       \<and> (\<forall>tc'. thinkingConfig r = Some tc' \<longrightarrow>
             thinkingBudget tc' = Some c2
           \<and> (\<forall>m. thinking_max rng = Some m \<and> 0 \<le> m \<longrightarrow> c2 \<le> m)
           \<and> (\<forall>e. effectiveMax md gc = Some e \<and> 0 < e \<longrightarrow> c2 < e)
           \<and> (\<forall>mn. thinking_min rng = Some mn \<longrightarrow> c2 < 0 \<or> mn \<le> c2))"
proof -
  define removed where "removed \<longleftrightarrow> (\<exists>mn. thinking_min rng = Some mn \<and> 0 \<le> c2 \<and> c2 < mn)"
  define tc1 where
    "tc1 = (if thinkingLevel tc \<noteq> None \<and> thinkingLevel tc \<noteq> Some []
               \<and> \<not> startsWith normalizedModel ''gemini-3-''
            then tc\<lparr>thinkingLevel := None\<rparr> else tc)"
  have b1: "(case thinking_max rng of
               Some maxBudget \<Rightarrow> if b > maxBudget then maxBudget else b | None \<Rightarrow> b) = c1"
    unfolding c1 by (cases "thinking_max rng") (simp_all add: min_def)
  have b2: "(case effectiveMax md gc of
               Some e \<Rightarrow> if e \<noteq> 0 \<and> c1 \<ge> e then max 0 (e - 1) else c1 | None \<Rightarrow> c1) = c2"
    unfolding c2 by simp
  have res: "thinkingConfig r = (if removed then None else Some (tc1\<lparr>thinkingBudget := Some c2\<rparr>))"
    unfolding r normalizeAntigravityThinking_def removed_def tc1_def
    by (cases "thinking_min rng";
        cases "thinkingLevel tc \<noteq> None \<and> thinkingLevel tc \<noteq> Some []
                 \<and> \<not> startsWith normalizedModel ''gemini-3-''")
       (simp_all add: md tc Let_def b1 b2)
  have upper: "c2 \<le> m" if "thinking_max rng = Some m" "0 \<le> m" for m
  proof -
    from that have "c1 \<le> m" unfolding c1 by simp
    with that show ?thesis unfolding c2 by (cases "effectiveMax md gc") auto
  qed
  have below: "c2 < e" if "effectiveMax md gc = Some e" "0 < e" for e
    using that unfolding c2 by auto
  have range: "c2 < 0 \<or> mn \<le> c2" if "thinking_min rng = Some mn" "\<not> removed" for mn
    using that unfolding removed_def by auto
  show ?thesis
    using res upper below range by (auto simp: removed_def [symmetric] split: if_splits)
qed

theorem thinking_budget_clamped_or_removed_witness:
  "thinkingConfig (normalizeAntigravityThinking ''gemini-2.5-flash'' (Some flash_metadata)
       (config_with_budget 50000 (Some 8192)))
     = Some \<lparr>thinkingBudget = Some 8191, thinkingLevel = None, include_thoughts = True\<rparr>
   \<and> thinkingConfig (normalizeAntigravityThinking ''gemini-2.5-flash'' (Some flash_metadata)
       (config_with_budget 50000 (Some 512))) = None"
proof -
  have md: "thinking flash_metadata = Some \<lparr>thinking_min = Some 1024, thinking_max = Some 32768\<rparr>"
    by (simp add: flash_metadata_def)
  have tc: "thinkingConfig (config_with_budget 50000 m)
              = Some \<lparr>thinkingBudget = Some 50000, thinkingLevel = None, include_thoughts = True\<rparr>"
    "thinkingBudget \<lparr>thinkingBudget = Some 50000, thinkingLevel = None, include_thoughts = True\<rparr>
       = Some 50000" for m
    by (simp_all add: config_with_budget_def)
  have c1: "(32768::int) =
      (case thinking_max \<lparr>thinking_min = Some 1024, thinking_max = Some 32768\<rparr> of
         Some m \<Rightarrow> min 50000 m | None \<Rightarrow> 50000)"
    by simp
  have c2: "(8191::int) =
      (case effectiveMax flash_metadata (config_with_budget 50000 (Some 8192)) of
         Some e \<Rightarrow> if e \<noteq> 0 \<and> e \<le> 32768 then max 0 (e - 1) else 32768 | None \<Rightarrow> 32768)"
    by (simp add: effectiveMax_def setDefaultMax_def flash_metadata_def config_with_budget_def)
  have c2': "(511::int) =
      (case effectiveMax flash_metadata (config_with_budget 50000 (Some 512)) of
         Some e \<Rightarrow> if e \<noteq> 0 \<and> e \<le> 32768 then max 0 (e - 1) else 32768 | None \<Rightarrow> 32768)"
    by (simp add: effectiveMax_def setDefaultMax_def flash_metadata_def config_with_budget_def)
  have kept: "thinkingConfig (normalizeAntigravityThinking ''gemini-2.5-flash'' (Some flash_metadata)
       (config_with_budget 50000 (Some 8192)))
     = Some \<lparr>thinkingBudget = Some 8191, thinkingLevel = None, include_thoughts = True\<rparr>"
    by (simp add: normalizeAntigravityThinking_def flash_metadata_def config_with_budget_def
          effectiveMax_def setDefaultMax_def)
  have "thinkingConfig (normalizeAntigravityThinking ''gemini-2.5-flash'' (Some flash_metadata)
       (config_with_budget 50000 (Some 512))) = None
     \<longleftrightarrow> (\<exists>mn. thinking_min \<lparr>thinking_min = Some 1024, thinking_max = Some 32768\<rparr> = Some mn
             \<and> 0 \<le> (511::int) \<and> 511 < mn)"
    using thinking_budget_clamped_or_removed [OF md tc c1 c2' refl] by (rule conjunct1)
  then have "thinkingConfig (normalizeAntigravityThinking ''gemini-2.5-flash'' (Some flash_metadata)
       (config_with_budget 50000 (Some 512))) = None"
    by simp
  with kept show ?thesis by (rule conjI)
qed

text \<open>
  The claim as stated fails for a negative budget: \<open>-1\<close> is below the declared minimum
  \<open>1024\<close>, and the thinking configuration is kept with the budget \<open>-1\<close>.
\<close>

theorem negative_budget_below_minimum_is_kept:
  "thinking flash_metadata = Some \<lparr>thinking_min = Some 1024, thinking_max = Some 32768\<rparr>
   \<and> (-1::int) < 1024
   \<and> thinkingConfig (normalizeAntigravityThinking ''gemini-2.5-flash'' (Some flash_metadata)
        (config_with_budget (-1) (Some 8192)))
     = Some \<lparr>thinkingBudget = Some (-1), thinkingLevel = None, include_thoughts = True\<rparr>"
  by (simp add: normalizeAntigravityThinking_def flash_metadata_def config_with_budget_def
        effectiveMax_def setDefaultMax_def)

section \<open>Tool results: no image survives, one note is appended\<close>

lemma with_text_not_image:
  "is_str (member block ''type'') ''text'' \<Longrightarrow> \<not> is_base64_image (with_text block t)"
  by (cases block) (auto simp: is_base64_image_def is_str_def AList.update_conv')

lemma note_not_image: "\<not> is_base64_image IMAGE_OMITTED_NOTE"
  by (simp add: is_base64_image_def IMAGE_OMITTED_NOTE_def is_str_def)

lemma image_is_not_skipped:
  "is_base64_image block \<Longrightarrow> \<not> is_skipped block"
  by (cases block) (simp_all add: is_base64_image_def is_skipped_def is_str_def)

lemma image_is_not_text:
  "is_base64_image block \<Longrightarrow> \<not> is_text_block block"
  by (auto simp: is_base64_image_def is_text_block_def is_str_def)

subsection \<open>Visiting without the size limit\<close>

lemma visit_snoc:
  "visit compact (blocks @ [block]) = keep_block compact (visit compact blocks) block"
  by (simp add: visit_def)

lemma visit_keeps_no_image:
  "\<forall>b \<in> set (fst (visit compact blocks)). \<not> is_base64_image b"
proof (induction blocks rule: rev_induct)
  case Nil
  show ?case by (simp add: visit_def)
next
  case (snoc block blocks)
  obtain kept used where v: "visit compact blocks = (kept, used)"
    by (cases "visit compact blocks")
  with snoc show ?case
    by (auto simp: visit_snoc v Let_def is_kept_def is_text_block_def with_text_not_image)
qed

lemma still_running_iff:
  "still_running compact visited =
     (\<forall>i < length visited. is_kept (visited ! i) \<longrightarrow>
        (if is_text_block (visited ! i)
         then snd (visit compact (take i visited)) < MAX_ANTIGRAVITY_TOOL_RESULT_CHARS
         else snd (visit compact (take (Suc i) visited)) < MAX_ANTIGRAVITY_TOOL_RESULT_CHARS))"
  by (auto simp: still_running_def list_all_iff)

lemma gets_through_iff:
  "gets_through compact visited =
     (\<forall>i < length visited. is_kept (visited ! i) \<longrightarrow>
        (if is_text_block (visited ! i)
         then snd (visit compact (take i visited)) < MAX_ANTIGRAVITY_TOOL_RESULT_CHARS
         else Suc i = length visited
              \<or> snd (visit compact (take (Suc i) visited)) < MAX_ANTIGRAVITY_TOOL_RESULT_CHARS))"
  by (auto simp: gets_through_def list_all_iff)

lemma still_running_snoc:
  "still_running compact (visited @ [block]) =
     (still_running compact visited
      \<and> (is_kept block \<longrightarrow>
           (if is_text_block block
            then snd (visit compact visited) < MAX_ANTIGRAVITY_TOOL_RESULT_CHARS
            else snd (visit compact (visited @ [block])) < MAX_ANTIGRAVITY_TOOL_RESULT_CHARS)))"
  unfolding still_running_iff
  by (auto simp: less_Suc_eq nth_append)

lemma still_running_gets_through:
  "still_running compact visited \<Longrightarrow> gets_through compact visited"
  by (auto simp: still_running_iff gets_through_iff)

lemma gets_through_snoc:
  assumes "still_running compact visited"
    and "is_kept block \<and> is_text_block block
         \<longrightarrow> snd (visit compact visited) < MAX_ANTIGRAVITY_TOOL_RESULT_CHARS"
  shows "gets_through compact (visited @ [block])"
  using assms unfolding still_running_iff gets_through_iff
  by (auto simp: less_Suc_eq nth_append)

subsection \<open>The loop and the size limit\<close>

lemma sanitize_loop_exact:
  assumes "sanitize_loop compact blocks cleaned usedChars removedImage = (out, removed)"
    and "visit compact seen = (cleaned, usedChars)"
    and "removedImage = (\<exists>b \<in> set seen. is_base64_image b)"
    and "still_running compact seen"
  shows "\<exists>visited rest.
           seen @ blocks = visited @ rest
         \<and> gets_through compact visited
         \<and> stops_before compact visited rest
         \<and> out = fst (visit compact visited)
         \<and> removed = (\<exists>b \<in> set visited. is_base64_image b)"
  using assms
proof (induction blocks arbitrary: seen cleaned usedChars removedImage)
  case Nil
  then have "out = fst (visit compact seen)" "removed = (\<exists>b \<in> set seen. is_base64_image b)"
    by simp_all
  moreover have "gets_through compact seen"
    by (rule still_running_gets_through [OF Nil.prems(4)])
  moreover have "stops_before compact seen []"
    by (simp add: stops_before_def)
  ultimately show ?case
    by (intro exI [of _ seen] exI [of _ "[]"]) simp
next
  case (Cons block blocks)
  note visited = Cons.prems(2) and running = Cons.prems(4)
  show ?case
  proof (cases "is_kept block")
    case False
    then have skip: "is_skipped block \<or> is_base64_image block"
      by (simp add: is_kept_def)
    have loop: "sanitize_loop compact blocks cleaned usedChars
                  (removedImage \<or> is_base64_image block) = (out, removed)"
      using Cons.prems(1) skip image_is_not_skipped [of block]
      by (cases "is_base64_image block") (auto simp: is_skipped_def)
    have v: "visit compact (seen @ [block]) = (cleaned, usedChars)"
      using False by (simp add: visit_snoc visited)
    have r: "(removedImage \<or> is_base64_image block) = (\<exists>b \<in> set (seen @ [block]). is_base64_image b)"
      using Cons.prems(3) by auto
    have s: "still_running compact (seen @ [block])"
      using running False by (simp add: still_running_snoc)
    from Cons.IH [OF loop v r s] show ?thesis
      by simp
  next
    case kept: True
    then have obj: "\<not> (\<not> truthy block \<or> \<not> is_object_like block)" and noimg: "\<not> is_base64_image block"
      by (simp_all add: is_kept_def is_skipped_def)
    have r: "removedImage = (\<exists>b \<in> set (seen @ [block]). is_base64_image b)"
      using Cons.prems(3) noimg by auto
    show ?thesis
    proof (cases "is_text_block block")
      case textual: True
      then have istext: "is_str (member block ''type'') ''text'' \<and> is_string (member block ''text'')"
        by (simp add: is_text_block_def)
      show ?thesis
      proof (cases "MAX_ANTIGRAVITY_TOOL_RESULT_CHARS - usedChars \<le> 0")
        case True
        with Cons.prems(1) obj noimg istext have res: "out = cleaned" "removed = removedImage"
          by (simp_all add: Let_def)
        have "stops_before compact seen (block # blocks)"
          using True kept textual by (simp add: stops_before_def visited)
        with res Cons.prems(3) still_running_gets_through [OF running] show ?thesis
          by (intro exI [of _ seen] exI [of _ "block # blocks"]) (simp add: visited)
      next
        case False
        define t where
          "t = compact (toString (the (member block ''text'')))
                 (MAX_ANTIGRAVITY_TOOL_RESULT_CHARS - usedChars)"
        from Cons.prems(1) obj noimg istext False
        have loop: "sanitize_loop compact blocks (cleaned @ [with_text block t])
                      (usedChars + int (utf16_length t)) removedImage = (out, removed)"
          by (simp add: Let_def t_def)
        have v: "visit compact (seen @ [block]) =
                   (cleaned @ [with_text block t], usedChars + int (utf16_length t))"
          using kept textual by (simp add: visit_snoc visited Let_def t_def)
        have s: "still_running compact (seen @ [block])"
          using running kept textual False by (simp add: still_running_snoc visited)
        from Cons.IH [OF loop v r s] show ?thesis
          by simp
      qed
    next
      case other: False
      then have notext: "(is_str (member block ''type'') ''text'' \<and> is_string (member block ''text'')) = False"
        by (simp add: is_text_block_def)
      have v: "visit compact (seen @ [block]) = (cleaned @ [block], usedChars + 100)"
        using kept other by (simp add: visit_snoc visited)
      show ?thesis
      proof (cases "usedChars + 100 \<ge> MAX_ANTIGRAVITY_TOOL_RESULT_CHARS")
        case True
        with Cons.prems(1) obj noimg have res: "out = cleaned @ [block]" "removed = removedImage"
          by (simp_all add: notext)
        have g: "gets_through compact (seen @ [block])"
          by (rule gets_through_snoc [OF running]) (simp add: other)
        have "stops_before compact (seen @ [block]) blocks"
          using True kept other by (simp add: stops_before_def v)
        with res r g show ?thesis
          by (intro exI [of _ "seen @ [block]"] exI [of _ blocks]) (simp add: v)
      next
        case False
        with Cons.prems(1) obj noimg
        have loop: "sanitize_loop compact blocks (cleaned @ [block]) (usedChars + 100) removedImage
                      = (out, removed)"
          by (simp add: notext)
        have s: "still_running compact (seen @ [block])"
          using running kept other False by (simp add: still_running_snoc v)
        from Cons.IH [OF loop v r s] show ?thesis
          by simp
      qed
    qed
  qed
qed

text \<open>Blocks that are kept as they are, while they leave room.\<close>

lemma loop_over_plain_blocks:
  assumes "is_kept block" and "\<not> is_text_block block"
  shows "usedChars + 100 * int n < MAX_ANTIGRAVITY_TOOL_RESULT_CHARS \<Longrightarrow>
         sanitize_loop compact (replicate n block @ rest) cleaned usedChars removedImage =
         sanitize_loop compact rest (cleaned @ replicate n block) (usedChars + 100 * int n) removedImage"
proof (induction n arbitrary: cleaned usedChars)
  case 0
  show ?case by simp
next
  case (Suc n)
  from assms have c: "truthy block" "is_object_like block" "\<not> is_base64_image block"
      "(is_str (member block ''type'') ''text'' \<and> is_string (member block ''text'')) = False"
    by (simp_all add: is_kept_def is_skipped_def is_text_block_def)
  from Suc.prems have room: "\<not> usedChars + 100 \<ge> MAX_ANTIGRAVITY_TOOL_RESULT_CHARS"
    and rest: "(usedChars + 100) + 100 * int n < MAX_ANTIGRAVITY_TOOL_RESULT_CHARS"
    by simp_all
  have "sanitize_loop compact (replicate (Suc n) block @ rest) cleaned usedChars removedImage =
        sanitize_loop compact (replicate n block @ rest) (cleaned @ [block]) (usedChars + 100) removedImage"
    using room by (simp add: c)
  also have "\<dots> = sanitize_loop compact rest ((cleaned @ [block]) @ replicate n block)
                     ((usedChars + 100) + 100 * int n) removedImage"
    by (rule Suc.IH [OF rest])
  finally show ?case
    by (simp add: replicate_append_same algebra_simps)
qed

text \<open>
  Claim C4, as the code has it.  The loop visits a first part of the array and stops
  where the size limit tells it to.  The output is what is kept of the visited blocks,
  followed by one explanatory text block when a visited block was a base64 image and by
  nothing otherwise; no block of the output is a base64 image.  So the note is there
  once, however many images were removed, and an image that comes after the place where
  the loop stopped is dropped without a note.
\<close>

theorem sanitized_blocks_have_no_image_and_one_note:
  "\<exists>visited rest.
     blocks = visited @ rest
     \<and> gets_through compact visited
     \<and> stops_before compact visited rest
     \<and> sanitizeToolResultBlocksForAntigravity compact blocks =
         fst (visit compact visited) @
         (if \<exists>b \<in> set visited. is_base64_image b then [IMAGE_OMITTED_NOTE] else [])
     \<and> (\<forall>b \<in> set (sanitizeToolResultBlocksForAntigravity compact blocks). \<not> is_base64_image b)"
proof -
  obtain out removed where loop: "sanitize_loop compact blocks [] 0 False = (out, removed)"
    by (cases "sanitize_loop compact blocks [] 0 False")
  have start: "visit compact [] = ([], 0)" "False = (\<exists>b \<in> set []. is_base64_image b)"
      "still_running compact []"
    by (simp_all add: visit_def still_running_def)
  from sanitize_loop_exact [OF loop start] obtain visited rest where
    split: "blocks = visited @ rest"
    and through: "gets_through compact visited" and stop: "stops_before compact visited rest"
    and out: "out = fst (visit compact visited)"
    and removed: "removed = (\<exists>b \<in> set visited. is_base64_image b)"
    by auto
  have result: "sanitizeToolResultBlocksForAntigravity compact blocks =
         fst (visit compact visited) @
         (if \<exists>b \<in> set visited. is_base64_image b then [IMAGE_OMITTED_NOTE] else [])"
    by (simp add: sanitizeToolResultBlocksForAntigravity_def loop out removed)
  have "\<forall>b \<in> set (sanitizeToolResultBlocksForAntigravity compact blocks). \<not> is_base64_image b"
    unfolding result using visit_keeps_no_image [of compact visited] note_not_image by auto
  with split through stop result show ?thesis
    by blast
qed

theorem sanitized_blocks_have_no_image_and_one_note_witness:
  "sanitizeToolResultBlocksForAntigravity cut_at
       [JObj [(''type'', JStr ''text''), (''text'', JStr ''saved to /tmp/a.png'')], image_block ''iVBORw0KGgo='']
     = [JObj [(''type'', JStr ''text''), (''text'', JStr ''saved to /tmp/a.png'')], IMAGE_OMITTED_NOTE]
   \<and> sanitizeToolResultBlocksForAntigravity cut_at
       (replicate 1999 resource_block @ [resource_block, image_block ''iVBORw0KGgo=''])
     = replicate 1999 resource_block @ [resource_block]
   \<and> (\<exists>visited rest.
        [JObj [(''type'', JStr ''text''), (''text'', JStr ''saved to /tmp/a.png'')], image_block ''iVBORw0KGgo='']
          = visited @ rest
        \<and> gets_through cut_at visited
        \<and> stops_before cut_at visited rest
        \<and> sanitizeToolResultBlocksForAntigravity cut_at
            [JObj [(''type'', JStr ''text''), (''text'', JStr ''saved to /tmp/a.png'')],
             image_block ''iVBORw0KGgo='']
          = fst (visit cut_at visited) @
            (if \<exists>b \<in> set visited. is_base64_image b then [IMAGE_OMITTED_NOTE] else [])
        \<and> (\<forall>b \<in> set (sanitizeToolResultBlocksForAntigravity cut_at
              [JObj [(''type'', JStr ''text''), (''text'', JStr ''saved to /tmp/a.png'')],
               image_block ''iVBORw0KGgo='']). \<not> is_base64_image b))"
proof (intro conjI)
  show "sanitizeToolResultBlocksForAntigravity cut_at
       [JObj [(''type'', JStr ''text''), (''text'', JStr ''saved to /tmp/a.png'')], image_block ''iVBORw0KGgo='']
     = [JObj [(''type'', JStr ''text''), (''text'', JStr ''saved to /tmp/a.png'')], IMAGE_OMITTED_NOTE]"
    by (simp add: sanitizeToolResultBlocksForAntigravity_def image_block_def is_base64_image_def
          is_str_def cut_at_def MAX_ANTIGRAVITY_TOOL_RESULT_CHARS_def)
next
  have plain: "is_kept resource_block" "\<not> is_text_block resource_block"
    by (simp_all add: is_kept_def is_skipped_def is_text_block_def is_base64_image_def
          resource_block_def is_str_def)
  have room: "0 + 100 * int 1999 < MAX_ANTIGRAVITY_TOOL_RESULT_CHARS"
    by (simp add: MAX_ANTIGRAVITY_TOOL_RESULT_CHARS_def)
  have full: "sanitize_loop cut_at [resource_block, image_block ''iVBORw0KGgo=''] kept
                (0 + 100 * int 1999) False
              = (kept @ [resource_block], False)" for kept
    by (simp add: resource_block_def is_base64_image_def is_str_def
          MAX_ANTIGRAVITY_TOOL_RESULT_CHARS_def)
  have "sanitize_loop cut_at
          (replicate 1999 resource_block @ [resource_block, image_block ''iVBORw0KGgo='']) [] 0 False
        = (([] @ replicate 1999 resource_block) @ [resource_block], False)"
    unfolding loop_over_plain_blocks [OF plain room] by (rule full)
  then show "sanitizeToolResultBlocksForAntigravity cut_at
       (replicate 1999 resource_block @ [resource_block, image_block ''iVBORw0KGgo=''])
     = replicate 1999 resource_block @ [resource_block]"
    unfolding sanitizeToolResultBlocksForAntigravity_def
    by (simp only: prod.case if_False append_Nil)
next
  show "\<exists>visited rest.
        [JObj [(''type'', JStr ''text''), (''text'', JStr ''saved to /tmp/a.png'')], image_block ''iVBORw0KGgo='']
          = visited @ rest
        \<and> gets_through cut_at visited
        \<and> stops_before cut_at visited rest
        \<and> sanitizeToolResultBlocksForAntigravity cut_at
            [JObj [(''type'', JStr ''text''), (''text'', JStr ''saved to /tmp/a.png'')],
             image_block ''iVBORw0KGgo='']
          = fst (visit cut_at visited) @
            (if \<exists>b \<in> set visited. is_base64_image b then [IMAGE_OMITTED_NOTE] else [])
        \<and> (\<forall>b \<in> set (sanitizeToolResultBlocksForAntigravity cut_at
              [JObj [(''type'', JStr ''text''), (''text'', JStr ''saved to /tmp/a.png'')],
               image_block ''iVBORw0KGgo='']). \<not> is_base64_image b)"
    by (rule sanitized_blocks_have_no_image_and_one_note)
qed

text \<open>
  Claim C4 as the specification words it fails for two images: both are removed and the
  output holds a single explanatory block, not one per image.
\<close>

theorem two_images_one_note:
  "sanitizeToolResultBlocksForAntigravity cut_at [image_block ''iVBORw0KGgo='', image_block ''R0lGODlh'']
     = [IMAGE_OMITTED_NOTE]
   \<and> length (filter is_base64_image [image_block ''iVBORw0KGgo='', image_block ''R0lGODlh'']) = 2
   \<and> length (filter (\<lambda>b. b = IMAGE_OMITTED_NOTE)
        (sanitizeToolResultBlocksForAntigravity cut_at [image_block ''iVBORw0KGgo='', image_block ''R0lGODlh''])) = 1"
  by (simp add: sanitizeToolResultBlocksForAntigravity_def image_block_def is_base64_image_def is_str_def)

section \<open>Message normalisation is idempotent\<close>

subsection \<open>Parts of an assistant message\<close>

lemma member_without_cache_control:
  "k \<noteq> ''cache_control'' \<Longrightarrow> member (without_cache_control part) k = member part k"
  by (cases part) (simp_all add: AList.delete_conv')

lemma without_cache_control_idem:
  "without_cache_control (without_cache_control part) = without_cache_control part"
  by (cases part) (simp_all add: AList.delete_idem)

lemma truthy_without_cache_control: "truthy (without_cache_control part) = truthy part"
  by (cases part) simp_all

lemma thinking_without_cache_control:
  "is_thinking_block (without_cache_control part) = is_thinking_block part"
  by (simp add: is_thinking_block_def member_without_cache_control)

lemma thinking_not_tool_use: "is_thinking_block part \<Longrightarrow> \<not> has_type part ''tool_use''"
  by (auto simp: is_thinking_block_def has_type_def is_str_def)

lemma strip_after_idem: "strip_after seen (strip_after seen parts) = strip_after seen parts"
  by (induction parts arbitrary: seen) auto

lemma strip_after_subset: "set (strip_after seen parts) \<subseteq> set parts"
  by (induction parts arbitrary: seen) auto

lemma strip_after_truthy: "part \<in> set (strip_after seen parts) \<Longrightarrow> truthy part"
  by (induction parts arbitrary: seen) (auto split: if_splits)

lemma strip_after_thinking_prefix:
  "\<forall>t \<in> set ts. truthy t \<and> is_thinking_block t \<Longrightarrow>
   strip_after False (ts @ parts) = ts @ strip_after False parts"
  by (induction ts) (auto dest: thinking_not_tool_use)

lemma filter_all: "\<forall>x \<in> set xs. P x \<Longrightarrow> filter P xs = xs"
  by (induction xs) auto

lemma filter_none: "\<forall>x \<in> set xs. \<not> P x \<Longrightarrow> filter P xs = []"
  by (induction xs) auto

text \<open>The parts stored in an assistant message for the size-constrained vendor: thinking
  blocks first, then the other parts cut after the first tool use.\<close>

lemma order_then_strip_shape:
  assumes "stripped = stripNonToolPartsAfterToolUse
             (normalizeAssistantThinkingOrderForVendor (Some ''antigravity'') parts)"
  shows "\<exists>ts os. stripped = ts @ os
           \<and> (\<forall>t \<in> set ts. truthy t \<and> is_thinking_block t \<and> without_cache_control t = t)
           \<and> (\<forall>p \<in> set os. truthy p \<and> \<not> is_thinking_block p \<and> \<not> isIgnorableTrailingText p)
           \<and> strip_after False os = os"
proof -
  define ts where
    "ts = map without_cache_control (filter (\<lambda>part. truthy part \<and> is_thinking_block part) parts)"
  define os0 where
    "os0 = filter (\<lambda>part. truthy part \<and> \<not> is_thinking_block part \<and> \<not> isIgnorableTrailingText part) parts"
  have ord: "normalizeAssistantThinkingOrderForVendor (Some ''antigravity'') parts = ts @ os0"
    by (simp add: normalizeAssistantThinkingOrderForVendor_def ts_def os0_def Let_def)
  have ts: "\<forall>t \<in> set ts. truthy t \<and> is_thinking_block t \<and> without_cache_control t = t"
    by (auto simp: ts_def truthy_without_cache_control thinking_without_cache_control
          without_cache_control_idem)
  then have "stripped = ts @ strip_after False os0"
    using assms by (simp add: stripNonToolPartsAfterToolUse_def ord strip_after_thinking_prefix)
  moreover have "\<forall>p \<in> set (strip_after False os0).
      truthy p \<and> \<not> is_thinking_block p \<and> \<not> isIgnorableTrailingText p"
    using strip_after_subset [of False os0] by (auto simp: os0_def)
  ultimately show ?thesis
    using ts strip_after_idem [of False os0] by blast
qed

lemma settled_parts_fixed:
  assumes ts: "\<forall>t \<in> set ts. truthy t \<and> is_thinking_block t \<and> without_cache_control t = t"
    and os: "\<forall>p \<in> set os. truthy p \<and> \<not> is_thinking_block p \<and> \<not> isIgnorableTrailingText p"
    and st: "strip_after False os = os"
  shows "filter truthy (ts @ os) = ts @ os"
    and "normalizeAssistantThinkingOrderForVendor vendor (ts @ os) = ts @ os"
    and "stripNonToolPartsAfterToolUse (ts @ os) = ts @ os"
proof -
  show "filter truthy (ts @ os) = ts @ os"
    using ts os by (simp add: filter_all)
  have t1: "filter (\<lambda>part. truthy part \<and> is_thinking_block part) (ts @ os) = ts"
    using ts os by (simp add: filter_all filter_none)
  have t2: "map without_cache_control ts = ts"
    using ts by (simp add: map_idI)
  have o1: "filter (\<lambda>part. truthy part \<and> \<not> is_thinking_block part \<and> \<not> isIgnorableTrailingText part)
              (ts @ os) = os"
    using ts os by (simp add: filter_all filter_none)
  show "normalizeAssistantThinkingOrderForVendor vendor (ts @ os) = ts @ os"
    unfolding normalizeAssistantThinkingOrderForVendor_def Let_def t1 o1 t2 by simp
  show "stripNonToolPartsAfterToolUse (ts @ os) = ts @ os"
    using ts st by (simp add: stripNonToolPartsAfterToolUse_def strip_after_thinking_prefix)
qed

subsection \<open>One message\<close>

lemma member_with_content:
  "member (with_content (JObj kvs) c) k = (if k = ''content'' then Some (JArr c) else member (JObj kvs) k)"
  by (simp add: AList.update_conv')

lemma with_content_twice: "with_content (with_content m c) c' = with_content m c'"
  by (cases m) simp_all

lemma with_content_same:
  "member m ''content'' = Some (JArr c) \<Longrightarrow> with_content m c = m"
  by (cases m) (simp_all add: AList.update_triv)

lemma synthetic_ids: "string_members ''tool_use_id'' (map synthetic_tool_result ids) = ids"
  by (induction ids) (simp_all add: string_members_def synthetic_tool_result_def)

lemma synthetic_is_tool_result: "has_type (synthetic_tool_result i) ''tool_result''"
  by (simp add: has_type_def synthetic_tool_result_def is_str_def)

lemma synthetic_truthy: "truthy (synthetic_tool_result i)"
  by (simp add: synthetic_tool_result_def)

lemma string_members_append:
  "string_members k (xs @ ys) = string_members k xs @ string_members k ys"
  by (simp add: string_members_def)

subsection \<open>What one turn does, case by case\<close>

lemma turn_assistant_antigravity:
  assumes "role = Some (JStr ''assistant'')"
  shows "normalize_content (Some ''antigravity'') role content pending =
           ((if pending \<noteq> [] then [synthetic_user_message pending] else []),
            [stripNonToolPartsAfterToolUse
               (normalizeAssistantThinkingOrderForVendor (Some ''antigravity'') (filter truthy content))],
            string_members ''id'' (filter (\<lambda>part. has_type part ''tool_use'')
              (stripNonToolPartsAfterToolUse
                 (normalizeAssistantThinkingOrderForVendor (Some ''antigravity'') (filter truthy content)))))"
  using assms by (simp add: normalize_content_def Let_def is_str_def)

lemma turn_other_role:
  assumes "\<not> (vendor = Some ''antigravity'' \<and> role = Some (JStr ''assistant''))"
    and "role \<noteq> Some (JStr ''user'')"
  shows "normalize_content vendor role content pending = ([], [filter truthy content], pending)"
  using assms
  by (auto simp: normalize_content_def Let_def is_str_def normalizeAssistantThinkingOrderForVendor_def)

lemma turn_user_plain:
  assumes "role = Some (JStr ''user'')" and "\<not> (vendor = Some ''antigravity'' \<and> pending \<noteq> [])"
    and "parts = filter truthy content"
    and "results = filter (\<lambda>p. has_type p ''tool_result'') parts"
    and "others = filter (\<lambda>p. \<not> has_type p ''tool_result'') parts"
  shows "normalize_content vendor role content pending =
           ([], (if results = [] then [parts] else if others = [] then [results] else [results, others]),
            pending)"
  using assms by (auto simp: normalize_content_def Let_def is_str_def)

lemma turn_user_completing:
  assumes "role = Some (JStr ''user'')" and "pending \<noteq> []"
    and "parts = filter truthy content"
    and "results = filter (\<lambda>p. has_type p ''tool_result'') parts"
    and "missing = filter (\<lambda>id. id \<notin> set (string_members ''tool_use_id'' results)) pending"
    and "others = filter (\<lambda>p. \<not> has_type p ''tool_result'') parts"
  shows "normalize_content (Some ''antigravity'') role content pending =
           ([], (if others = [] then [results @ map synthetic_tool_result missing]
                 else [results @ map synthetic_tool_result missing, others]), [])"
    and "results @ map synthetic_tool_result missing \<noteq> []"
proof -
  show ne: "results @ map synthetic_tool_result missing \<noteq> []"
  proof (cases "missing = []")
    case True
    then have "set pending \<subseteq> set (string_members ''tool_use_id'' results)"
      unfolding assms(5) by (auto simp: filter_empty_conv)
    with assms(2) have "string_members ''tool_use_id'' results \<noteq> []"
      by (cases pending) auto
    then show ?thesis by (auto simp: string_members_def)
  qed simp
  have syn: "filter (\<lambda>p. has_type p ''tool_result'') (map synthetic_tool_result missing)
               = map synthetic_tool_result missing"
    "filter (\<lambda>p. \<not> has_type p ''tool_result'') (map synthetic_tool_result missing) = []"
    by (simp_all add: filter_all filter_none synthetic_is_tool_result)
  have res: "filter (\<lambda>p. has_type p ''tool_result'') results = results"
    "filter (\<lambda>p. \<not> has_type p ''tool_result'') results = []"
    "filter (\<lambda>p. has_type p ''tool_result'') others = []"
    "filter (\<lambda>p. \<not> has_type p ''tool_result'') others = others"
    unfolding assms(4,6) by (simp_all add: filter_all filter_none)
  show "normalize_content (Some ''antigravity'') role content pending =
           ([], (if others = [] then [results @ map synthetic_tool_result missing]
                 else [results @ map synthetic_tool_result missing, others]), [])"
  proof (cases "missing = []")
    case True
    with ne have "results \<noteq> []" by simp
    with True show ?thesis
      using assms(1,2)
      by (simp add: normalize_content_def Let_def is_str_def
            assms(3,4,5,6) [symmetric])
  next
    case False
    with ne show ?thesis
      using assms(1,2)
      by (simp add: normalize_content_def Let_def is_str_def
            assms(3,4,5,6) [symmetric] syn res)
  qed
qed

subsection \<open>A turn applied to what it pushed\<close>

lemma turn_fixed:
  assumes "normalize_content vendor role content pending = (pre, cs, pending')"
  shows "\<exists>q. ((pre = [] \<and> q = pending)
              \<or> (pre = [synthetic_user_message pending] \<and> vendor = Some ''antigravity''
                  \<and> pending \<noteq> [] \<and> q = []))
           \<and> ((\<exists>c1. cs = [c1] \<and> normalize_content vendor role c1 q = ([], [c1], pending'))
              \<or> (\<exists>c1 c2 q1. cs = [c1, c2]
                    \<and> normalize_content vendor role c1 q = ([], [c1], q1)
                    \<and> normalize_content vendor role c2 q1 = ([], [c2], pending')))"
proof -
  consider (assistant) "vendor = Some ''antigravity''" "role = Some (JStr ''assistant'')"
    | (other) "\<not> (vendor = Some ''antigravity'' \<and> role = Some (JStr ''assistant''))"
        "role \<noteq> Some (JStr ''user'')"
    | (plain) "role = Some (JStr ''user'')" "\<not> (vendor = Some ''antigravity'' \<and> pending \<noteq> [])"
    | (completing) "role = Some (JStr ''user'')" "vendor = Some ''antigravity''" "pending \<noteq> []"
    by blast
  then show ?thesis
  proof cases
    case assistant
    define stripped where
      "stripped = stripNonToolPartsAfterToolUse
         (normalizeAssistantThinkingOrderForVendor (Some ''antigravity'') (filter truthy content))"
    from order_then_strip_shape [OF stripped_def] obtain ts os where
      sh: "stripped = ts @ os"
        "\<forall>t \<in> set ts. truthy t \<and> is_thinking_block t \<and> without_cache_control t = t"
        "\<forall>p \<in> set os. truthy p \<and> \<not> is_thinking_block p \<and> \<not> isIgnorableTrailingText p"
        "strip_after False os = os"
      by blast
    note fx = settled_parts_fixed [OF sh(2,3,4), folded sh(1)]
    have first: "pre = (if pending \<noteq> [] then [synthetic_user_message pending] else [])"
      "cs = [stripped]"
      "pending' = string_members ''id'' (filter (\<lambda>part. has_type part ''tool_use'') stripped)"
      using assms unfolding assistant(1) turn_assistant_antigravity [OF assistant(2)] stripped_def
      by simp_all
    have again: "normalize_content vendor role stripped [] = ([], [stripped], pending')"
      unfolding assistant(1) turn_assistant_antigravity [OF assistant(2)] fx first(3) by simp
    show ?thesis
    proof (cases "pending = []")
      case True
      with first again show ?thesis by (intro exI [of _ pending]) simp
    next
      case False
      with first again assistant(1) show ?thesis by (intro exI [of _ "[]"]) simp
    qed
  next
    case other
    from assms have "pre = []" "cs = [filter truthy content]" "pending' = pending"
      unfolding turn_other_role [OF other] by simp_all
    moreover have "normalize_content vendor role (filter truthy content) pending
        = ([], [filter truthy content], pending)"
      unfolding turn_other_role [OF other] by simp
    ultimately show ?thesis by (intro exI [of _ pending]) simp
  next
    case plain
    define parts where "parts = filter truthy content"
    define results where "results = filter (\<lambda>p. has_type p ''tool_result'') parts"
    define others where "others = filter (\<lambda>p. \<not> has_type p ''tool_result'') parts"
    note t = turn_user_plain [OF plain]
    have first: "pre = []" "pending' = pending"
      "cs = (if results = [] then [parts] else if others = [] then [results] else [results, others])"
      using assms unfolding t [OF parts_def results_def others_def] by simp_all
    have tp: "filter truthy parts = parts" "filter truthy results = results"
      "filter truthy others = others"
      by ((rule filter_all, simp add: parts_def results_def others_def)+)
    have rr: "filter (\<lambda>p. has_type p ''tool_result'') results = results"
      "filter (\<lambda>p. \<not> has_type p ''tool_result'') results = []"
      "filter (\<lambda>p. has_type p ''tool_result'') others = []"
      by ((rule filter_all filter_none, simp add: results_def others_def)+)
    have p1: "normalize_content vendor role parts pending = ([], [parts], pending)"
      if "results = []"
      using that
      by (subst t [where parts = parts and results = results and others = others])
         (simp_all add: tp results_def others_def)
    have p2: "normalize_content vendor role results pending = ([], [results], pending)"
      if "results \<noteq> []"
      using that
      by (subst t [where parts = results and results = results and others = "[]"])
         (simp_all add: tp rr)
    have p3: "normalize_content vendor role others pending = ([], [others], pending)"
      by (subst t [where parts = others and results = "[]"
            and others = "filter (\<lambda>p. \<not> has_type p ''tool_result'') others"])
         (simp_all add: tp rr)
    show ?thesis
      using first p1 p2 p3 by (intro exI [of _ pending]) auto
  next
    case completing
    define parts where "parts = filter truthy content"
    define results where "results = filter (\<lambda>p. has_type p ''tool_result'') parts"
    define missing where
      "missing = filter (\<lambda>id. id \<notin> set (string_members ''tool_use_id'' results)) pending"
    define others where "others = filter (\<lambda>p. \<not> has_type p ''tool_result'') parts"
    define answered where "answered = results @ map synthetic_tool_result missing"
    note t = turn_user_completing [OF completing(1,3) parts_def results_def missing_def others_def,
        folded answered_def]
    have first: "pre = []" "pending' = []"
      "cs = (if others = [] then [answered] else [answered, others])"
      using assms unfolding completing(2) t(1) by simp_all
    have ta: "filter truthy answered = answered"
      "filter (\<lambda>p. has_type p ''tool_result'') answered = answered"
      "filter (\<lambda>p. \<not> has_type p ''tool_result'') answered = []"
      by ((rule filter_all filter_none,
           auto simp: answered_def results_def parts_def synthetic_truthy synthetic_is_tool_result)+)
    have "set pending \<subseteq> set (string_members ''tool_use_id'' answered)"
      by (auto simp: answered_def string_members_append synthetic_ids missing_def)
    then have nomiss: "filter (\<lambda>id. id \<notin> set (string_members ''tool_use_id'' answered)) pending = []"
      by (intro filter_none) auto
    have a1: "normalize_content vendor role answered pending = ([], [answered], [])"
      unfolding completing(2)
      by (subst turn_user_completing(1) [OF completing(1,3), where parts = answered
            and results = answered and missing = "[]" and others = "[]"])
         (simp_all add: ta nomiss)
    have to: "filter truthy others = others"
      "filter (\<lambda>p. has_type p ''tool_result'') others = []"
      by ((rule filter_all filter_none, simp add: others_def parts_def)+)
    have a2: "normalize_content vendor role others [] = ([], [others], [])"
      by (subst turn_user_plain [OF completing(1), where parts = others and results = "[]"
            and others = "filter (\<lambda>p. \<not> has_type p ''tool_result'') others"])
         (simp_all add: to)
    show ?thesis
      using first a1 a2 by (intro exI [of _ pending]) auto
  qed
qed

subsection \<open>Messages and the loop\<close>

lemma normalize_message_with_content:
  assumes "normalize_content vendor (member (JObj kvs) ''role'') c q = ([], [c], q')"
  shows "normalize_message vendor (with_content (JObj kvs) c) q = ([with_content (JObj kvs) c], q')"
proof -
  have "member (with_content (JObj kvs) c) ''content'' = Some (JArr c)"
    "member (with_content (JObj kvs) c) ''role'' = member (JObj kvs) ''role''"
    by (simp_all add: member_with_content del: with_content.simps member.simps)
  then show ?thesis
    using assms by (simp add: normalize_message_def with_content_twice del: with_content.simps member.simps)
qed

lemma synthetic_user_message_fixed:
  assumes "pending \<noteq> []"
  shows "normalize_message (Some ''antigravity'') (synthetic_user_message pending) pending =
           ([synthetic_user_message pending], [])"
proof -
  let ?c = "map synthetic_tool_result pending"
  have f: "filter truthy ?c = ?c" "filter (\<lambda>p. has_type p ''tool_result'') ?c = ?c"
    "filter (\<lambda>p. \<not> has_type p ''tool_result'') ?c = []"
    by ((rule filter_all filter_none, simp add: synthetic_truthy synthetic_is_tool_result)+)
  have "normalize_content (Some ''antigravity'') (Some (JStr ''user'')) ?c pending = ([], [?c], [])"
    by (subst turn_user_completing(1) [OF refl assms, where parts = ?c and results = ?c
          and missing = "[]" and others = "[]"])
       (simp_all add: f synthetic_ids)
  then show ?thesis
    by (simp add: normalize_message_def synthetic_user_message_def)
qed

lemma normalize_message_fixed:
  assumes "normalize_message vendor m pending = (pushed, pending')"
  shows "normalize_steps vendor pushed pending = (pushed, pending')"
proof (cases "\<exists>content. member m ''content'' = Some (JArr content)")
  case False
  then have r: "normalize_message vendor m pending = ([m], pending)"
    by (auto simp: normalize_message_def split: option.splits json.splits)
  with assms have "pushed = [m]" "pending' = pending" by simp_all
  with r show ?thesis by simp
next
  case True
  then obtain content where c: "member m ''content'' = Some (JArr content)" ..
  then obtain kvs where m: "m = JObj kvs" by (cases m) simp_all
  obtain pre cs q' where
    t: "normalize_content vendor (member m ''role'') content pending = (pre, cs, q')"
    by (cases "normalize_content vendor (member m ''role'') content pending")
  with assms c have out: "pushed = pre @ map (with_content m) cs" "pending' = q'"
    by (simp_all add: normalize_message_def)
  from turn_fixed [OF t] obtain q where
    pre: "(pre = [] \<and> q = pending)
          \<or> (pre = [synthetic_user_message pending] \<and> vendor = Some ''antigravity''
              \<and> pending \<noteq> [] \<and> q = [])"
    and cs: "(\<exists>c1. cs = [c1] \<and> normalize_content vendor (member m ''role'') c1 q = ([], [c1], q'))
             \<or> (\<exists>c1 c2 q1. cs = [c1, c2]
                   \<and> normalize_content vendor (member m ''role'') c1 q = ([], [c1], q1)
                   \<and> normalize_content vendor (member m ''role'') c2 q1 = ([], [c2], q'))"
    by blast
  have rest: "normalize_steps vendor (map (with_content m) cs) q = (map (with_content m) cs, q')"
    using cs
  proof (elim disjE exE conjE)
    fix c1
    assume "cs = [c1]" "normalize_content vendor (member m ''role'') c1 q = ([], [c1], q')"
    then show ?thesis
      using normalize_message_with_content [of vendor kvs c1 q q']
      by (simp add: m del: with_content.simps member.simps)
  next
    fix c1 c2 q1
    assume "cs = [c1, c2]" "normalize_content vendor (member m ''role'') c1 q = ([], [c1], q1)"
      "normalize_content vendor (member m ''role'') c2 q1 = ([], [c2], q')"
    then show ?thesis
      using normalize_message_with_content [of vendor kvs c1 q q1]
        normalize_message_with_content [of vendor kvs c2 q1 q']
      by (simp add: m del: with_content.simps member.simps)
  qed
  from pre show ?thesis
  proof (elim disjE conjE)
    assume "pre = []" "q = pending"
    with rest out show ?thesis by simp
  next
    assume "pre = [synthetic_user_message pending]" "vendor = Some ''antigravity''"
      "pending \<noteq> []" "q = []"
    with rest out synthetic_user_message_fixed [of pending] show ?thesis by simp
  qed
qed

lemma normalize_steps_append:
  "normalize_steps vendor (xs @ ys) pending =
     (case normalize_steps vendor xs pending of
        (out1, pending1) \<Rightarrow>
          (case normalize_steps vendor ys pending1 of
             (out2, pending2) \<Rightarrow> (out1 @ out2, pending2)))"
  by (induction xs arbitrary: pending) (auto split: prod.splits)

lemma normalize_steps_fixed:
  assumes "normalize_steps vendor messages pending = (out, pending')"
  shows "normalize_steps vendor out pending = (out, pending')"
  using assms
proof (induction messages arbitrary: pending out pending')
  case Nil
  then show ?case by simp
next
  case (Cons m ms)
  obtain pushed p1 where a: "normalize_message vendor m pending = (pushed, p1)"
    by (cases "normalize_message vendor m pending")
  obtain rest p2 where b: "normalize_steps vendor ms p1 = (rest, p2)"
    by (cases "normalize_steps vendor ms p1")
  from Cons.prems a b have out: "out = pushed @ rest" "pending' = p2"
    by simp_all
  from normalize_message_fixed [OF a] Cons.IH [OF b] show ?case
    by (simp add: out normalize_steps_append)
qed

lemma close_pending_fixed:
  "\<exists>q. normalize_steps vendor (close_pending vendor pending) pending = (close_pending vendor pending, q)
       \<and> close_pending vendor q = []"
proof (cases "vendor = Some ''antigravity'' \<and> pending \<noteq> []")
  case True
  then show ?thesis
    using synthetic_user_message_fixed [of pending] by (simp add: close_pending_def)
next
  case False
  then show ?thesis by (auto simp: close_pending_def)
qed

text \<open>
  C5.  Message normalisation is idempotent: for every argument and every vendor option,
  normalising the normalised list returns it unchanged.  The proof uses nothing about
  \<open>trim\<close>: the statement holds whichever characters count as white space.
\<close>

theorem normalizeAnthropicMessages_idempotent:
  "normalizeAnthropicMessages vendor (normalizeAnthropicMessages vendor messages)
     = normalizeAnthropicMessages vendor messages"
proof (cases "\<exists>m ms. messages = JArr (m # ms)")
  case False
  then have "normalizeAnthropicMessages vendor messages = messages"
    by (auto simp: normalizeAnthropicMessages_def split: json.splits list.splits)
  then show ?thesis by simp
next
  case True
  then obtain m ms where ms: "messages = JArr (m # ms)" by blast
  obtain out p where s: "normalize_steps vendor (m # ms) [] = (out, p)"
    by (cases "normalize_steps vendor (m # ms) []")
  have first: "normalizeAnthropicMessages vendor messages = JArr (out @ close_pending vendor p)"
    by (simp add: normalizeAnthropicMessages_def ms s del: normalize_steps.simps)
  from close_pending_fixed [of vendor p] obtain q where
    q: "normalize_steps vendor (close_pending vendor p) p = (close_pending vendor p, q)"
       "close_pending vendor q = []"
    by blast
  have again: "normalize_steps vendor (out @ close_pending vendor p) []
                 = (out @ close_pending vendor p, q)"
    by (simp add: normalize_steps_append normalize_steps_fixed [OF s] q(1))
  show ?thesis
    unfolding first using again q(2)
    by (cases "out @ close_pending vendor p")
       (simp_all add: normalizeAnthropicMessages_def del: normalize_steps.simps)
qed

theorem normalizeAnthropicMessages_idempotent_witness:
  "normalizeAnthropicMessages (Some ''antigravity'')
     (normalizeAnthropicMessages (Some ''antigravity'') interrupted_conversation)
   = normalizeAnthropicMessages (Some ''antigravity'') interrupted_conversation"
  by (rule normalizeAnthropicMessages_idempotent)

section \<open>Streaming: a Grep call with a query\<close>

lemma toLowerCase_Grep:
  "toLowerCase unicodeLower ''Grep'' = ''grep''"
proof -
  have "is_ascii ''Grep''" "map lower_char ''Grep'' = ''grep''"
    by code_simp+
  then show ?thesis
    by (simp add: toLowerCase_def)
qed

lemma serialized_grep_query:
  \<open>serialized_args ''grep'' (JObj [(''query'', JStr ''foo'')]) = ''{"path":".","pattern":"foo"}''\<close>
  by code_simp

lemma grep_query_key:
  \<open>toString (JStr ''Grep'') @ '':'' @ stableJsonStringify (JObj [(''query'', JStr ''foo'')]) =
     ''Grep:{"query":"foo"}''\<close>
  by code_simp

lemma resolve_complete_args:
  assumes "map_of call ''args'' = Some (JObj kvs)"
  shows "\<exists>canContinue. resolveFunctionCallArgs P (JObj call) = (Some (JObj kvs), [], canContinue)"
  using assms by (simp add: resolveFunctionCallArgs_def first_defined_def Let_def)

lemma emit_grep_query:
  \<open>emitToolUseBlock env (JStr ''Grep'') (JObj [(''query'', JStr ''foo'')]) toolId s =
     (False,
      s\<lparr>written := written s @
           [Sse (ContentBlockStart (currentIndex s + 1)
                   (ToolUseStart
                      (case toolId of
                         Some (JStr i) \<Rightarrow> if i \<noteq> [] then i else newToolUseId env (idCounter s)
                       | _ \<Rightarrow> newToolUseId env (idCounter s))
                      (JStr ''Grep''))),
            Sse (ContentBlockDelta (currentIndex s + 1) (InputJsonDelta ''{"path":".","pattern":"foo"}'')),
            Sse (ContentBlockStop (currentIndex s + 1))],
        currentIndex := currentIndex s + 1,
        emittedAnyToolUse := True,
        currentBlockType := None,
        idCounter := (if (case toolId of Some (JStr i) \<Rightarrow> i \<noteq> [] | _ \<Rightarrow> False)
                      then idCounter s else Suc (idCounter s))\<rparr>)\<close>
  unfolding emitToolUseBlock_def Let_def
  by (simp add: toLowerCase_Grep serialized_grep_query)

lemma stopIfOpen_other_fields:
  "written (stopIfOpen (s\<lparr>emittedToolCallKeys := ks\<rparr>)) = written (stopIfOpen s)"
  "currentIndex (stopIfOpen (s\<lparr>emittedToolCallKeys := ks\<rparr>)) = currentIndex s"
  "pendingToolCallsById (stopIfOpen (s\<lparr>emittedToolCallKeys := ks\<rparr>)) = pendingToolCallsById s"
  "idCounter (stopIfOpen (s\<lparr>emittedToolCallKeys := ks\<rparr>)) = idCounter s"
  "written (stopIfOpen (s\<lparr>pendingToolCallsById := ps\<rparr>)) = written (stopIfOpen s)"
  "written (s\<lparr>pendingToolCallsById := ps\<rparr>) = written s"
  "currentIndex (stopIfOpen s) = currentIndex s"
  "emittedToolCallKeys (stopIfOpen s) = emittedToolCallKeys s"
  by (simp_all add: stopIfOpen_def stopCurrentBlock_def writeAnthropicSseEvent_def)

text \<open>The step on a call that carries complete arguments, without and with an identifier.\<close>

lemma step_without_id:
  assumes "member part ''functionCall'' = Some (JObj call)"
    and "map_of call ''name'' = Some name" and "truthy name"
    and "(case map_of call ''id'' of
            Some (JStr i) \<Rightarrow> if i \<noteq> [] then Some i else None
          | _ \<Rightarrow> None) = None"
    and "resolveFunctionCallArgs (jsonParse env) (JObj call) = (Some a, js, canContinue)"
  shows "function_call_step env part s =
           (if toString name @ '':'' @ stableJsonStringify a \<in> set (emittedToolCallKeys s) then (False, s)
            else emitToolUseBlock env name a None
                   ((stopIfOpen (s\<lparr>emittedToolCallKeys :=
                                     emittedToolCallKeys s @
                                     [toString name @ '':'' @ stableJsonStringify a]\<rparr>))
                      \<lparr>currentBlockType := Some BToolUse\<rparr>))"
  unfolding function_call_step_def Let_def
  using assms by simp

lemma step_with_id:
  assumes "member part ''functionCall'' = Some (JObj call)"
    and "map_of call ''name'' = Some name" and "truthy name"
    and "(case map_of call ''id'' of
            Some (JStr i) \<Rightarrow> if i \<noteq> [] then Some i else None
          | _ \<Rightarrow> None) = Some i"
    and "resolveFunctionCallArgs (jsonParse env) (JObj call) = (Some a, js, canContinue)"
  shows "function_call_step env part s =
           (if canContinue
            then (False, s\<lparr>pendingToolCallsById :=
                              AList.update i \<lparr>pc_name = name, pc_args = Some a, pc_argsJson = []\<rparr>
                                (pendingToolCallsById s)\<rparr>)
            else flushPendingToolCallById env i False
                   (s\<lparr>pendingToolCallsById :=
                        AList.update i \<lparr>pc_name = name, pc_args = Some a, pc_argsJson = []\<rparr>
                          (pendingToolCallsById s)\<rparr>))"
proof -
  have entry: "(case found of Some p \<Rightarrow> p | None \<Rightarrow> fresh)
               \<lparr>pc_name := name, pc_args := Some a, pc_argsJson := []\<rparr>
               = \<lparr>pc_name = name, pc_args = Some a, pc_argsJson = []\<rparr>"
    for found :: "pending_call option" and fresh
    by (cases found) simp_all
  show ?thesis
    unfolding function_call_step_def Let_def
    using assms by (simp add: entry)
qed

text \<open>Flushing a pending Grep call that holds the query.\<close>

lemma flush_grep_query:
  assumes p: "map_of (pendingToolCallsById t) i = Some p"
    and name: "pc_name p = JStr ''Grep''"
    and args: "pc_args p = Some (JObj [(''query'', JStr ''foo'')])"
    and i: "i \<noteq> []"
  shows \<open>\<not> fst (flushPendingToolCallById env i force t)
     \<and> written (snd (flushPendingToolCallById env i force t)) =
         (if ''id:'' @ i \<in> set (emittedToolCallKeys t) then written t
          else written (stopIfOpen t) @
               [Sse (ContentBlockStart (currentIndex t + 1) (ToolUseStart i (JStr ''Grep''))),
                Sse (ContentBlockDelta (currentIndex t + 1)
                       (InputJsonDelta ''{"path":".","pattern":"foo"}'')),
                Sse (ContentBlockStop (currentIndex t + 1))])
     \<and> map_of (pendingToolCallsById (snd (flushPendingToolCallById env i force t))) i = None\<close>
  unfolding flushPendingToolCallById_def Let_def
  using i
  by (simp add: p name args emit_grep_query stopIfOpen_other_fields AList.delete_conv')

text \<open>
  Claim C3, as the code has it.  A part of a streamed payload carries a function call
  named \<^verbatim>\<open>Grep\<close> with the arguments \<^verbatim>\<open>{"query":"foo"}\<close>.  The repair renames \<^verbatim>\<open>query\<close>
  to \<^verbatim>\<open>pattern\<close> and adds the default \<^verbatim>\<open>path\<close> \<^verbatim>\<open>"."\<close>.  Handling the part never
  throws, in any state of the response.  When the call has an identifier and announces
  more, nothing is written and the call waits under its identifier with its name and
  arguments.  When the call was emitted before (the same name and arguments without
  identifier, or the same identifier), nothing is written.  In every other case the open
  block is closed and one tool use block is written whose input is
  \<^verbatim>\<open>{"path":".","pattern":"foo"}\<close>.  And whenever a call waiting with that name and those
  arguments is flushed, by a later part or at the end of the stream, the same block is
  written under its identifier, unless that identifier was emitted before, and the call
  waits no longer.
\<close>

theorem grep_query_becomes_pattern_with_default_path:
  fixes env :: stream_env and s :: stream_state and call :: "(string \<times> json) list"
  defines "callId \<equiv> (case map_of call ''id'' of
                        Some (JStr i) \<Rightarrow> if i \<noteq> [] then Some i else None
                      | _ \<Rightarrow> None)"
    and "waits \<equiv> (case map_of call ''id'' of
                        Some (JStr i) \<Rightarrow> i \<noteq> []
                      | _ \<Rightarrow> False)
                  \<and> snd (snd (resolveFunctionCallArgs (jsonParse env) (JObj call)))"
  assumes fc: "member part ''functionCall'' = Some (JObj call)"
    and name: "map_of call ''name'' = Some (JStr ''Grep'')"
    and args: "map_of call ''args'' = Some (JObj [(''query'', JStr ''foo'')])"
  shows
    \<open>remapFunctionCallArgs (toLowerCase (unicodeLowerCase env) ''Grep'') [(''query'', JStr ''foo'')] =
        [(''pattern'', JStr ''foo''), (''path'', JStr ''.'')]
     \<and> \<not> fst (function_call_step env part s)
     \<and> written (snd (function_call_step env part s)) =
         (if waits
             \<or> (case callId of None \<Rightarrow> ''Grep:{"query":"foo"}'' | Some i \<Rightarrow> ''id:'' @ i)
                 \<in> set (emittedToolCallKeys s)
          then written s
          else written (stopIfOpen s) @
               [Sse (ContentBlockStart (currentIndex s + 1)
                       (ToolUseStart
                          (case callId of None \<Rightarrow> newToolUseId env (idCounter s) | Some i \<Rightarrow> i)
                          (JStr ''Grep''))),
                Sse (ContentBlockDelta (currentIndex s + 1)
                       (InputJsonDelta ''{"path":".","pattern":"foo"}'')),
                Sse (ContentBlockStop (currentIndex s + 1))])
     \<and> (waits \<longrightarrow>
          map_of (pendingToolCallsById (snd (function_call_step env part s))) (the callId) =
            Some \<lparr>pc_name = JStr ''Grep'', pc_args = Some (JObj [(''query'', JStr ''foo'')]),
                  pc_argsJson = []\<rparr>)
     \<and> (\<forall>t i p force.
           map_of (pendingToolCallsById t) i = Some p \<and> pc_name p = JStr ''Grep''
           \<and> pc_args p = Some (JObj [(''query'', JStr ''foo'')]) \<and> i \<noteq> [] \<longrightarrow>
           \<not> fst (flushPendingToolCallById env i force t)
           \<and> written (snd (flushPendingToolCallById env i force t)) =
               (if ''id:'' @ i \<in> set (emittedToolCallKeys t) then written t
                else written (stopIfOpen t) @
                     [Sse (ContentBlockStart (currentIndex t + 1) (ToolUseStart i (JStr ''Grep''))),
                      Sse (ContentBlockDelta (currentIndex t + 1)
                             (InputJsonDelta ''{"path":".","pattern":"foo"}'')),
                      Sse (ContentBlockStop (currentIndex t + 1))])
           \<and> map_of (pendingToolCallsById (snd (flushPendingToolCallById env i force t))) i = None)\<close>
proof -
  have remap: "remapFunctionCallArgs (toLowerCase (unicodeLowerCase env) ''Grep'') [(''query'', JStr ''foo'')] =
      [(''pattern'', JStr ''foo''), (''path'', JStr ''.'')]"
    unfolding toLowerCase_Grep by code_simp
  obtain canContinue where res:
    "resolveFunctionCallArgs (jsonParse env) (JObj call) =
       (Some (JObj [(''query'', JStr ''foo'')]), [], canContinue)"
    using resolve_complete_args [OF args] by blast
  let ?r = "function_call_step env part s"
  let ?entry = "\<lparr>pc_name = JStr ''Grep'', pc_args = Some (JObj [(''query'', JStr ''foo'')]),
                  pc_argsJson = []\<rparr>"
  have step: \<open>\<not> fst ?r
     \<and> written (snd ?r) =
         (if waits
             \<or> (case callId of None \<Rightarrow> ''Grep:{"query":"foo"}'' | Some i \<Rightarrow> ''id:'' @ i)
                 \<in> set (emittedToolCallKeys s)
          then written s
          else written (stopIfOpen s) @
               [Sse (ContentBlockStart (currentIndex s + 1)
                       (ToolUseStart
                          (case callId of None \<Rightarrow> newToolUseId env (idCounter s) | Some i \<Rightarrow> i)
                          (JStr ''Grep''))),
                Sse (ContentBlockDelta (currentIndex s + 1)
                       (InputJsonDelta ''{"path":".","pattern":"foo"}'')),
                Sse (ContentBlockStop (currentIndex s + 1))])
     \<and> (waits \<longrightarrow> map_of (pendingToolCallsById (snd ?r)) (the callId) = Some ?entry)\<close>
  proof (cases "\<exists>i. map_of call ''id'' = Some (JStr i) \<and> i \<noteq> []")
    case False
    then have noid: "callId = None" "waits = False"
      by (auto simp: callId_def waits_def split: option.splits json.splits)
    have noid': "(case map_of call ''id'' of
                        Some (JStr i) \<Rightarrow> if i \<noteq> [] then Some i else None
                      | _ \<Rightarrow> None) = None"
      using noid(1) by (simp add: callId_def)
    have grep: "truthy (JStr ''Grep'')"
      by simp
    note r = step_without_id [OF fc name grep noid' res, of s, unfolded grep_query_key emit_grep_query]
    show ?thesis
      unfolding noid r by (simp add: stopIfOpen_other_fields)
  next
    case True
    then obtain i where i: "map_of call ''id'' = Some (JStr i)" "i \<noteq> []"
      by blast
    then have withid: "callId = Some i" "waits = canContinue"
      by (simp_all add: callId_def waits_def res)
    have withid': "(case map_of call ''id'' of
                        Some (JStr i) \<Rightarrow> if i \<noteq> [] then Some i else None
                      | _ \<Rightarrow> None) = Some i"
      using i by simp
    have grep: "truthy (JStr ''Grep'')"
      by simp
    define s1 where "s1 = s\<lparr>pendingToolCallsById := AList.update i ?entry (pendingToolCallsById s)\<rparr>"
    have r: "?r = (if canContinue then (False, s1) else flushPendingToolCallById env i False s1)"
      unfolding s1_def by (rule step_with_id [OF fc name grep withid' res])
    have found: "map_of (pendingToolCallsById s1) i = Some ?entry"
      by (simp add: s1_def AList.update_conv')
    have s1: "written s1 = written s" "written (stopIfOpen s1) = written (stopIfOpen s)"
      "currentIndex s1 = currentIndex s" "emittedToolCallKeys s1 = emittedToolCallKeys s"
      by (simp_all add: s1_def stopIfOpen_other_fields)
    note flushed = flush_grep_query [OF found _ _ i(2), of env False, simplified, unfolded s1]
    show ?thesis
    proof (cases canContinue)
      case True
      then show ?thesis
        unfolding withid r by (simp add: found s1)
    next
      case False
      with flushed show ?thesis
        unfolding withid r by simp
    qed
  qed
  have flush: \<open>\<forall>t i p force.
           map_of (pendingToolCallsById t) i = Some p \<and> pc_name p = JStr ''Grep''
           \<and> pc_args p = Some (JObj [(''query'', JStr ''foo'')]) \<and> i \<noteq> [] \<longrightarrow>
           \<not> fst (flushPendingToolCallById env i force t)
           \<and> written (snd (flushPendingToolCallById env i force t)) =
               (if ''id:'' @ i \<in> set (emittedToolCallKeys t) then written t
                else written (stopIfOpen t) @
                     [Sse (ContentBlockStart (currentIndex t + 1) (ToolUseStart i (JStr ''Grep''))),
                      Sse (ContentBlockDelta (currentIndex t + 1)
                             (InputJsonDelta ''{"path":".","pattern":"foo"}'')),
                      Sse (ContentBlockStop (currentIndex t + 1))])
           \<and> map_of (pendingToolCallsById (snd (flushPendingToolCallById env i force t))) i = None\<close>
    using flush_grep_query by blast
  from remap step flush show ?thesis
    by blast
qed

theorem grep_query_becomes_pattern_with_default_path_witness:
  \<open>\<not> fst (function_call_step plain_env
             (JObj [(''functionCall'',
                     JObj [(''name'', JStr ''Grep''), (''args'', JObj [(''query'', JStr ''foo'')])])])
             (initial_state plain_env))
   \<and> written (snd (function_call_step plain_env
             (JObj [(''functionCall'',
                     JObj [(''name'', JStr ''Grep''), (''args'', JObj [(''query'', JStr ''foo'')])])])
             (initial_state plain_env))) =
       [Sse (MessageStart ''msg_1'' ''claude-x''),
        Sse (ContentBlockStart 0 (ToolUseStart ''toolu_0'' (JStr ''Grep''))),
        Sse (ContentBlockDelta 0 (InputJsonDelta ''{"path":".","pattern":"foo"}'')),
        Sse (ContentBlockStop 0)]
   \<and> stream_response plain_env [Chunk [Data waiting_grep_payload]] =
       [Sse (MessageStart ''msg_1'' ''claude-x'')]
   \<and> stream_response plain_env [Chunk [Data waiting_grep_payload], StreamEnd] =
       [Sse (MessageStart ''msg_1'' ''claude-x''),
        Sse (ContentBlockStart 0 (ToolUseStart ''call_1'' (JStr ''Grep''))),
        Sse (ContentBlockDelta 0 (InputJsonDelta ''{"path":".","pattern":"foo"}'')),
        Sse (ContentBlockStop 0),
        Sse (MessageDelta ''tool_use''),
        Sse MessageStop,
        ResEnd]\<close>
proof -
  note T = grep_query_becomes_pattern_with_default_path
    [where part = "JObj [(''functionCall'',
                     JObj [(''name'', JStr ''Grep''), (''args'', JObj [(''query'', JStr ''foo'')])])]"
       and call = "[(''name'', JStr ''Grep''), (''args'', JObj [(''query'', JStr ''foo'')])]"
       and env = plain_env and s = "initial_state plain_env"]
  have "\<not> fst (function_call_step plain_env
             (JObj [(''functionCall'',
                     JObj [(''name'', JStr ''Grep''), (''args'', JObj [(''query'', JStr ''foo'')])])])
             (initial_state plain_env))"
    using T by simp
  moreover have \<open>written (snd (function_call_step plain_env
             (JObj [(''functionCall'',
                     JObj [(''name'', JStr ''Grep''), (''args'', JObj [(''query'', JStr ''foo'')])])])
             (initial_state plain_env))) =
       [Sse (MessageStart ''msg_1'' ''claude-x''),
        Sse (ContentBlockStart 0 (ToolUseStart ''toolu_0'' (JStr ''Grep''))),
        Sse (ContentBlockDelta 0 (InputJsonDelta ''{"path":".","pattern":"foo"}'')),
        Sse (ContentBlockStop 0)]\<close>
    by code_simp
  moreover have \<open>stream_response plain_env [Chunk [Data waiting_grep_payload]] =
       [Sse (MessageStart ''msg_1'' ''claude-x'')]\<close>
    by code_simp
  moreover have \<open>stream_response plain_env [Chunk [Data waiting_grep_payload], StreamEnd] =
       [Sse (MessageStart ''msg_1'' ''claude-x''),
        Sse (ContentBlockStart 0 (ToolUseStart ''call_1'' (JStr ''Grep''))),
        Sse (ContentBlockDelta 0 (InputJsonDelta ''{"path":".","pattern":"foo"}'')),
        Sse (ContentBlockStop 0),
        Sse (MessageDelta ''tool_use''),
        Sse MessageStop,
        ResEnd]\<close>
    by code_simp
  ultimately show ?thesis
    by blast
qed

text \<open>
  Claim C3 as the specification words it fails: the input of the emitted block is not
  \<^verbatim>\<open>{"pattern":"foo"}\<close>.  One chunk with the Grep call, then the end of the stream.
\<close>

theorem grep_query_input_has_default_path:
  \<open>stream_response plain_env [Chunk [Data grep_payload], StreamEnd] =
     [Sse (MessageStart ''msg_1'' ''claude-x''),
      Sse (ContentBlockStart 0 (ToolUseStart ''toolu_0'' (JStr ''Grep''))),
      Sse (ContentBlockDelta 0 (InputJsonDelta ''{"path":".","pattern":"foo"}'')),
      Sse (ContentBlockStop 0),
      Sse (MessageDelta ''tool_use''),
      Sse MessageStop,
      ResEnd]
   \<and> ''{"path":".","pattern":"foo"}'' \<noteq> stableJsonStringify (JObj [(''pattern'', JStr ''foo'')])\<close>
  by code_simp

section \<open>Streaming: one text chunk, then the end of the stream\<close>

lemma hello_parts:
  "extractGeminiParts (Some hello_payload) = [JObj [(''text'', JStr ''Hello'')]]"
  by (simp add: hello_payload_def extractGeminiParts_def)

lemma hello_read:
  "extractGeminiText (Some hello_payload) = ''Hello''"
  "extractGeminiThoughtText (Some hello_payload) = []"
  "extractGeminiThoughtSignature (Some hello_payload) = JStr []"
  "sanitizeThoughtSignatureForAntigravity (JStr []) = []"
  "member hello_payload ''response'' = None"
  "(case member hello_payload ''candidates'' of
      Some (JArr (candidate # _)) \<Rightarrow> member candidate ''finishReason''
    | _ \<Rightarrow> None) = None"
  by (simp_all add: hello_parts extractGeminiText_def extractGeminiThoughtText_def
        extractGeminiThoughtSignature_def sanitizeThoughtSignatureForAntigravity_def trim_def)
     (simp_all add: hello_payload_def)

lemma hello_has_no_tag:
  "indexOf ''Hello'' ''<mcp__'' = None"
  by code_simp

lemma hello_payload_handled:
  assumes "currentBlockType s = None" and "emittedText s = []" and "inMcpXml s = False"
    and "\<not> wantsThinkingBlockFirst env"
  shows "on_payload env hello_payload s =
    (False,
     s\<lparr>written := written s @
          [Sse (ContentBlockStart (currentIndex s + 1) TextStart),
           Sse (ContentBlockDelta (currentIndex s + 1) (TextDelta ''Hello''))],
       currentIndex := currentIndex s + 1,
       currentBlockType := Some BText,
       emittedText := ''Hello''\<rparr>)"
  using assms
  by (simp add: on_payload_def hello_read hello_parts and_then_def signature_step_def
        function_call_step_def thought_step_def text_step_def processMcpXmlBridgeDelta_def
        hello_has_no_tag switchBlockType_def stopIfOpen_def startTextBlock_def
        writeAnthropicSseEvent_def Let_def)

text \<open>
  Claim C1.  The request did not ask Antigravity for thoughts, so that no thinking block
  is open when the stream starts.  The backend delivers one line whose payload has the
  single part \<^verbatim>\<open>{text:"Hello"}\<close> and no finish reason, and then the stream ends.  The
  client receives exactly \<^verbatim>\<open>message_start\<close>, the start of a text block with index 0, the
  text delta \<^verbatim>\<open>Hello\<close>, the stop of that block, \<^verbatim>\<open>message_delta\<close> with the stop reason
  \<^verbatim>\<open>end_turn\<close> and \<^verbatim>\<open>message_stop\<close>, and the response is ended: there is no call of the
  rescue and no error event in between.
\<close>

theorem hello_stream_completes_normally:
  assumes "\<not> wantsThinkingBlockFirst env"
  shows "stream_response env [Chunk [Data hello_payload], StreamEnd] =
    [Sse (MessageStart (messageId env) (responseModel env)),
     Sse (ContentBlockStart 0 TextStart),
     Sse (ContentBlockDelta 0 (TextDelta ''Hello'')),
     Sse (ContentBlockStop 0),
     Sse (MessageDelta ''end_turn''),
     Sse MessageStop,
     ResEnd]"
proof -
  let ?s0 = "(initial_state env)
     \<lparr>activityArmed := True, receivedAnyUpstreamBytes := True, firstByteArmed := False\<rparr>"
  have truthy_hello: "truthy hello_payload"
    by (simp add: hello_payload_def)
  have line: "on_line env (Data hello_payload) ?s0 = on_payload env hello_payload ?s0"
    by (simp add: on_line_def truthy_hello hello_read or_else_def)
  have payload: "on_payload env hello_payload ?s0 =
    (False,
     ?s0\<lparr>written := written ?s0 @
           [Sse (ContentBlockStart (currentIndex ?s0 + 1) TextStart),
            Sse (ContentBlockDelta (currentIndex ?s0 + 1) (TextDelta ''Hello''))],
        currentIndex := currentIndex ?s0 + 1,
        currentBlockType := Some BText,
        emittedText := ''Hello''\<rparr>)"
    using assms by (intro hello_payload_handled) (simp_all add: initial_state_def)
  have data: "on_data env [Data hello_payload] (initial_state env) =
     ?s0\<lparr>written := written ?s0 @
           [Sse (ContentBlockStart (currentIndex ?s0 + 1) TextStart),
            Sse (ContentBlockDelta (currentIndex ?s0 + 1) (TextDelta ''Hello''))],
        currentIndex := currentIndex ?s0 + 1,
        currentBlockType := Some BText,
        emittedText := ''Hello''\<rparr>"
    unfolding on_data_def Let_def
    by (simp add: line payload and_then_def) (simp add: initial_state_def)
  show ?thesis
    using assms
    unfolding stream_response_def
    by (simp add: handle_def data on_end_def finalize_def leftover_text_def complete_response_def
          hasAnyContent_def close_message_def stopIfOpen_def stopCurrentBlock_def
          writeAnthropicSseEvent_def Let_def)
       (simp add: initial_state_def leftover_text_def complete_response_def hasAnyContent_def
          close_message_def stopIfOpen_def stopCurrentBlock_def writeAnthropicSseEvent_def Let_def)
qed

theorem hello_stream_completes_normally_witness:
  "\<not> wantsThinkingBlockFirst plain_env
   \<and> stream_response plain_env [Chunk [Data hello_payload], StreamEnd] =
       [Sse (MessageStart ''msg_1'' ''claude-x''),
        Sse (ContentBlockStart 0 TextStart),
        Sse (ContentBlockDelta 0 (TextDelta ''Hello'')),
        Sse (ContentBlockStop 0),
        Sse (MessageDelta ''end_turn''),
        Sse MessageStop,
        ResEnd]"
proof -
  have no: "\<not> wantsThinkingBlockFirst plain_env"
    by (simp add: wantsThinkingBlockFirst_def plain_env_def)
  from hello_stream_completes_normally [OF no] no show ?thesis
    by (simp add: plain_env_def)
qed

section \<open>Streaming: the order of the content block events\<close>

subsection \<open>The check and the primitives\<close>

lemma check_trace_append:
  "check_trace st (xs @ ys) =
     (case check_trace st xs of None \<Rightarrow> None | Some st' \<Rightarrow> check_trace st' ys)"
  by (induction xs arbitrary: st) (auto split: option.splits)

lemmas order_defs = in_step_def block_closed_def open_index_def check_trace_append

lemma stopIfOpen_closes:
  "in_step s \<Longrightarrow> block_closed (stopIfOpen s)"
  by (auto simp: order_defs stopIfOpen_def stopCurrentBlock_def writeAnthropicSseEvent_def)

lemma stopIfOpen_keeps:
  "currentIndex (stopIfOpen s) = currentIndex s"
  "currentBlockType (stopIfOpen s) = currentBlockType s"
  "finished (stopIfOpen s) = finished s"
  by (simp_all add: stopIfOpen_def stopCurrentBlock_def writeAnthropicSseEvent_def)

lemma tool_use_ready:
  assumes "in_step s"
  shows "in_step ((stopIfOpen s)\<lparr>currentBlockType := Some BToolUse\<rparr>)"
    and "block_closed ((stopIfOpen s)\<lparr>currentBlockType := Some BToolUse\<rparr>)"
  using stopIfOpen_closes [OF assms] by (simp_all add: order_defs)

lemma switchBlockType_in_step:
  assumes "in_step s" and "nextType \<noteq> BToolUse"
  shows "in_step (switchBlockType nextType s)"
    and "currentBlockType (switchBlockType nextType s) = Some nextType"
proof -
  have t: "nextType = BText \<or> nextType = BThinking"
    using assms(2) by (cases nextType) simp_all
  from stopIfOpen_closes [OF assms(1)]
  have c: "check_trace (- 1, None) (written (stopIfOpen s)) = Some (currentIndex s, None)"
    by (simp add: block_closed_def stopIfOpen_keeps)
  show "in_step (switchBlockType nextType s)"
    using t assms(1) c
    by (auto simp: switchBlockType_def Let_def startTextBlock_def startThinkingBlock_def
          writeAnthropicSseEvent_def order_defs stopIfOpen_keeps)
  show "currentBlockType (switchBlockType nextType s) = Some nextType"
    using t
    by (auto simp: switchBlockType_def Let_def startTextBlock_def startThinkingBlock_def
          writeAnthropicSseEvent_def)
qed

lemma switchBlockType_finished:
  "finished (switchBlockType nextType s) = finished s"
  by (simp add: switchBlockType_def Let_def startTextBlock_def startThinkingBlock_def
        writeAnthropicSseEvent_def stopIfOpen_keeps)

lemma delta_in_step:
  assumes "in_step s" and "currentBlockType s = Some BText \<or> currentBlockType s = Some BThinking"
  shows "in_step (writeAnthropicSseEvent (ContentBlockDelta (currentIndex s) d) s)"
  using assms by (auto simp: order_defs writeAnthropicSseEvent_def)

lemma switch_then_delta:
  assumes "in_step s" and "nextType \<noteq> BToolUse"
  shows "in_step (writeAnthropicSseEvent
                    (ContentBlockDelta (currentIndex (switchBlockType nextType s)) d)
                    (switchBlockType nextType s))"
proof (rule delta_in_step)
  show "in_step (switchBlockType nextType s)"
    by (rule switchBlockType_in_step [OF assms])
  from assms(2) switchBlockType_in_step(2) [OF assms]
  show "currentBlockType (switchBlockType nextType s) = Some BText
        \<or> currentBlockType (switchBlockType nextType s) = Some BThinking"
    by (cases nextType) simp_all
qed

lemma emit_from_closed:
  assumes "block_closed s"
  shows "fst (emitToolUseBlock env name args toolId s) \<and> snd (emitToolUseBlock env name args toolId s) = s
         \<or> \<not> fst (emitToolUseBlock env name args toolId s)
           \<and> in_step (snd (emitToolUseBlock env name args toolId s))"
  using assms by (simp add: emitToolUseBlock_def Let_def order_defs)

lemma emit_string_name:
  "\<not> fst (emitToolUseBlock env (JStr n) args toolId s)"
  by (simp add: emitToolUseBlock_def Let_def)

lemma emit_finished:
  "finished (snd (emitToolUseBlock env name args toolId s)) = finished s"
  by (simp add: emitToolUseBlock_def Let_def)

lemma emit_in_step:
  assumes "in_step s" and "block_closed s"
  shows "in_step (snd (emitToolUseBlock env name args toolId s))"
  using emit_from_closed [OF assms(2), of env name args toolId] assms(1) by auto

subsection \<open>Function calls\<close>

lemma and_then_in_step:
  assumes "in_step (snd r)" and "\<And>s. in_step s \<Longrightarrow> in_step (snd (f s))"
  shows "in_step (snd (and_then r f))"
  using assms by (cases r) (simp add: and_then_def)

text \<open>What flushing a pending call can leave behind.\<close>

lemma flush_result:
  "\<exists>name args ks ps ps'.
     snd (flushPendingToolCallById env callId force s) = s
     \<or> snd (flushPendingToolCallById env callId force s) = s\<lparr>pendingToolCallsById := ps'\<rparr>
     \<or> snd (flushPendingToolCallById env callId force s) =
         snd (emitToolUseBlock env name args (Some (JStr callId))
                ((stopIfOpen (s\<lparr>emittedToolCallKeys := ks\<rparr>))
                   \<lparr>currentBlockType := Some BToolUse, pendingToolCallsById := ps\<rparr>))
     \<or> snd (flushPendingToolCallById env callId force s) =
         (snd (emitToolUseBlock env name args (Some (JStr callId))
                 ((stopIfOpen (s\<lparr>emittedToolCallKeys := ks\<rparr>))
                    \<lparr>currentBlockType := Some BToolUse, pendingToolCallsById := ps\<rparr>)))
           \<lparr>pendingToolCallsById := ps'\<rparr>"
proof (cases "map_of (pendingToolCallsById s) callId")
  case None
  then show ?thesis
    by (simp add: flushPendingToolCallById_def)
next
  case (Some pending0)
  define pending1 where
    "pending1 =
       (if pc_args pending0 = None \<and> pc_argsJson pending0 \<noteq> [] then
          (case jsonParse env (pc_argsJson pending0) of
             Some (JObj kvs) \<Rightarrow> pending0\<lparr>pc_args := Some (JObj kvs), pc_argsJson := []\<rparr>
           | _ \<Rightarrow> pending0)
        else pending0)"
  define args where "args = (case pc_args pending1 of None \<Rightarrow> JObj [] | Some a \<Rightarrow> a)"
  define s2 where
    "s2 = (stopIfOpen (s\<lparr>emittedToolCallKeys := emittedToolCallKeys s @ [''id:'' @ callId]\<rparr>))
            \<lparr>currentBlockType := Some BToolUse,
              pendingToolCallsById :=
                AList.update callId (pending1\<lparr>pc_args := Some args\<rparr>) (pendingToolCallsById s)\<rparr>"
  have pend: "pendingToolCallsById (stopIfOpen (s\<lparr>emittedToolCallKeys := ks\<rparr>)) = pendingToolCallsById s"
    for ks
    by (simp add: stopIfOpen_def stopCurrentBlock_def writeAnthropicSseEvent_def)
  have result:
    "snd (flushPendingToolCallById env callId force s) = s
     \<or> snd (flushPendingToolCallById env callId force s) =
         s\<lparr>pendingToolCallsById := AList.delete callId (pendingToolCallsById s)\<rparr>
     \<or> snd (flushPendingToolCallById env callId force s) =
         snd (emitToolUseBlock env (pc_name pending1) args (Some (JStr callId)) s2)
     \<or> snd (flushPendingToolCallById env callId force s) =
         (snd (emitToolUseBlock env (pc_name pending1) args (Some (JStr callId)) s2))
           \<lparr>pendingToolCallsById :=
              AList.delete callId
                (pendingToolCallsById
                   (snd (emitToolUseBlock env (pc_name pending1) args (Some (JStr callId)) s2)))\<rparr>"
    unfolding flushPendingToolCallById_def Some option.case Let_def
      pending1_def [symmetric] args_def [symmetric]
    by (simp add: s2_def pend split: prod.splits)
  then show ?thesis
    unfolding s2_def by blast
qed

lemma flush_in_step:
  assumes "in_step s"
  shows "in_step (snd (flushPendingToolCallById env callId force s))"
proof -
  have ready: "in_step ((stopIfOpen (s\<lparr>emittedToolCallKeys := ks\<rparr>))
                          \<lparr>currentBlockType := Some BToolUse, pendingToolCallsById := ps\<rparr>)"
      "block_closed ((stopIfOpen (s\<lparr>emittedToolCallKeys := ks\<rparr>))
                          \<lparr>currentBlockType := Some BToolUse, pendingToolCallsById := ps\<rparr>)" for ks ps
  proof -
    have keys: "in_step (s\<lparr>emittedToolCallKeys := ks\<rparr>)"
      using assms by (simp add: order_defs)
    from tool_use_ready [OF keys]
    show "in_step ((stopIfOpen (s\<lparr>emittedToolCallKeys := ks\<rparr>))
                          \<lparr>currentBlockType := Some BToolUse, pendingToolCallsById := ps\<rparr>)"
      and "block_closed ((stopIfOpen (s\<lparr>emittedToolCallKeys := ks\<rparr>))
                          \<lparr>currentBlockType := Some BToolUse, pendingToolCallsById := ps\<rparr>)"
      by (simp_all add: order_defs)
  qed
  have emitted: "in_step (snd (emitToolUseBlock env name args (Some (JStr callId))
                   ((stopIfOpen (s\<lparr>emittedToolCallKeys := ks\<rparr>))
                      \<lparr>currentBlockType := Some BToolUse, pendingToolCallsById := ps\<rparr>)))"
    for name args ks ps
    by (rule emit_in_step [OF ready])
  then have emitted': "in_step ((snd (emitToolUseBlock env name args (Some (JStr callId))
                   ((stopIfOpen (s\<lparr>emittedToolCallKeys := ks\<rparr>))
                      \<lparr>currentBlockType := Some BToolUse, pendingToolCallsById := ps\<rparr>)))
                   \<lparr>pendingToolCallsById := ps'\<rparr>)"
    for name args ks ps ps'
    by (simp add: order_defs)
  have same: "in_step (s\<lparr>pendingToolCallsById := ps'\<rparr>)" for ps'
    using assms by (simp add: order_defs)
  from flush_result [of env callId force s] assms emitted emitted' same
  show ?thesis
    by (elim exE disjE) simp_all
qed

lemma flush_finished:
  "finished (snd (flushPendingToolCallById env callId force s)) = finished s"
  using flush_result [of env callId force s]
  by (elim exE disjE) (simp_all add: emit_finished stopIfOpen_keeps)

lemma function_call_step_in_step:
  assumes "in_step s"
  shows "in_step (snd (function_call_step env part s))"
proof -
  have keys: "in_step (s\<lparr>emittedToolCallKeys := ks\<rparr>)" for ks
    using assms by (simp add: order_defs)
  have pend: "in_step (s\<lparr>pendingToolCallsById := ps\<rparr>)" for ps
    using assms by (simp add: order_defs)
  have direct: "in_step (snd (emitToolUseBlock env name args None
                  ((stopIfOpen (s\<lparr>emittedToolCallKeys := ks\<rparr>))\<lparr>currentBlockType := Some BToolUse\<rparr>)))"
    for name args ks
    by (rule emit_in_step) (rule tool_use_ready [OF keys])+
  show ?thesis
    unfolding function_call_step_def Let_def
    using assms direct flush_in_step [OF pend] pend
    by (simp split: prod.splits option.splits)
qed

lemma function_call_loop_in_step:
  "in_step s \<Longrightarrow> in_step (snd (function_call_loop env parts s))"
proof (induction parts arbitrary: s)
  case Nil
  then show ?case by simp
next
  case (Cons part parts)
  from function_call_step_in_step [OF Cons.prems]
  have "in_step (snd (function_call_step env part s))" .
  with Cons.IH show ?case
    by (simp add: and_then_in_step)
qed

subsection \<open>Thinking and text\<close>

lemma signature_step_in_step:
  assumes "in_step s"
  shows "in_step (snd (signature_step env thoughtSignature s))"
proof -
  have "in_step ((writeAnthropicSseEvent
                    (ContentBlockDelta (currentIndex (switchBlockType BThinking s)) d)
                    (switchBlockType BThinking s))\<lparr>emittedThoughtSignature := sig\<rparr>)" for d sig
    using switch_then_delta [OF assms, of BThinking d] by (simp add: order_defs)
  with assms show ?thesis
    by (simp add: signature_step_def Let_def split: json.splits)
qed

lemma thought_step_in_step:
  assumes "in_step s"
  shows "in_step (thought_step env fullThought s)"
proof -
  have sw: "switchBlockType BThinking s\<lparr>emittedThinking := t\<rparr> =
            (switchBlockType BThinking s)\<lparr>emittedThinking := t\<rparr>" for t
    by simp
  have "in_step (switchBlockType BThinking s\<lparr>emittedThinking := t\<rparr>)"
    and "currentBlockType (switchBlockType BThinking s\<lparr>emittedThinking := t\<rparr>) = Some BThinking" for t
    using switchBlockType_in_step [OF assms, of BThinking] by (simp_all add: order_defs)
  then have "in_step (writeAnthropicSseEvent
                (ContentBlockDelta (currentIndex (switchBlockType BThinking s\<lparr>emittedThinking := t\<rparr>)) d)
                (switchBlockType BThinking s\<lparr>emittedThinking := t\<rparr>))" for t d
    by (intro delta_in_step) simp_all
  with assms show ?thesis
    by (simp add: thought_step_def Let_def)
qed

lemma apply_action_in_step:
  assumes "in_step s"
  shows "in_step (apply_action env s action)"
proof (cases action)
  case (TextAction t)
  then show ?thesis
    using assms switch_then_delta [OF assms, of BText] by (simp add: Let_def)
next
  case (ToolAction toolName args)
  from emit_from_closed [OF stopIfOpen_closes [OF assms]] emit_string_name
  show ?thesis
    unfolding ToolAction by (simp del: fst_conv snd_conv) blast
qed

lemma actions_in_step:
  "in_step s \<Longrightarrow> in_step (foldl (apply_action env) s actions)"
  by (induction actions arbitrary: s) (simp_all add: apply_action_in_step)

lemma text_step_in_step:
  assumes "in_step s"
  shows "in_step (text_step env fullText s)"
proof -
  have "in_step (s\<lparr>mcpXmlBuffer := b, inMcpXml := x\<rparr>)" for b x
    using assms by (simp add: order_defs)
  then have "in_step (foldl (apply_action env) (s\<lparr>mcpXmlBuffer := b, inMcpXml := x\<rparr>) actions)"
    for b x actions
    by (rule actions_in_step)
  then have "in_step ((foldl (apply_action env) (s\<lparr>mcpXmlBuffer := b, inMcpXml := x\<rparr>) actions)
                        \<lparr>emittedText := t\<rparr>)" for b x actions t
    by (simp add: order_defs)
  with assms show ?thesis
    by (simp add: text_step_def Let_def split: prod.splits)
qed

subsection \<open>The data handler\<close>

lemma on_payload_in_step:
  assumes "in_step s"
  shows "in_step (snd (on_payload env payload s))"
proof -
  have fr: "in_step (s\<lparr>finishReason := r\<rparr>)" for r
    using assms by (simp add: order_defs)
  show ?thesis
    unfolding on_payload_def Let_def
    by (intro and_then_in_step)
       (auto intro!: and_then_in_step
          simp: assms fr signature_step_in_step thought_step_in_step text_step_in_step
            function_call_loop_in_step)
qed

lemma on_lines_in_step:
  "in_step s \<Longrightarrow> in_step (snd (on_lines env lines s))"
proof (induction lines arbitrary: s)
  case Nil
  then show ?case by simp
next
  case (Cons line lines)
  have "in_step (snd (on_line env line s))"
    using Cons.prems on_payload_in_step [OF Cons.prems]
    by (simp add: on_line_def split: sse_line.splits)
  then show ?case
    using Cons.IH by (simp add: and_then_in_step)
qed

subsection \<open>The end of the stream\<close>

lemma flush_all_in_step:
  "in_step s \<Longrightarrow> in_step (snd (flush_all env ids s))"
  by (induction ids arbitrary: s) (simp_all add: and_then_in_step flush_in_step)

lemma flush_all_finished:
  "finished (snd (flush_all env ids s)) = finished s"
proof (induction ids arbitrary: s)
  case Nil
  show ?case by simp
next
  case (Cons i ids)
  show ?case
    using Cons.IH [of "snd (flushPendingToolCallById env i True s)"]
      flush_finished [of env i True s]
    by (cases "flushPendingToolCallById env i True s") (simp add: and_then_def)
qed

lemma leftover_text_in_step:
  assumes "in_step s"
  shows "in_step (leftover_text s)"
proof -
  have "in_step (s\<lparr>mcpXmlBuffer := [], inMcpXml := False\<rparr>)"
    using assms by (simp add: order_defs)
  from switch_then_delta [OF this, of BText] assms show ?thesis
    by (simp add: leftover_text_def Let_def)
qed

lemma leftover_text_finished:
  "finished (leftover_text s) = finished s"
  by (simp add: leftover_text_def Let_def writeAnthropicSseEvent_def switchBlockType_finished)

lemma emit_rescued_in_step:
  assumes "in_step s"
  shows "in_step (emit_rescued env b s)"
  unfolding emit_rescued_def
  by (rule emit_in_step) (rule tool_use_ready [OF assms])+

lemma emit_rescued_finished:
  "finished (emit_rescued env b s) = finished s"
  by (simp add: emit_rescued_def emit_finished stopIfOpen_keeps)

lemma rescue_text_in_step:
  assumes "in_step s"
  shows "in_step (rescue_text rescuedContent s)"
proof -
  have "in_step ((switchBlockType BText s)\<lparr>emittedText := t\<rparr>)"
    and "currentBlockType ((switchBlockType BText s)\<lparr>emittedText := t\<rparr>) = Some BText" for t
    using switchBlockType_in_step [OF assms, of BText] by (simp_all add: order_defs)
  then have "in_step (writeAnthropicSseEvent
                (ContentBlockDelta (currentIndex ((switchBlockType BText s)\<lparr>emittedText := t\<rparr>)) d)
                ((switchBlockType BText s)\<lparr>emittedText := t\<rparr>))" for t d
    by (intro delta_in_step) simp_all
  with assms show ?thesis
    by (simp add: rescue_text_def Let_def)
qed

lemma rescue_text_finished:
  "finished (rescue_text rescuedContent s) = finished s"
  by (simp add: rescue_text_def Let_def writeAnthropicSseEvent_def switchBlockType_finished)

lemma rescue_in_step:
  assumes "in_step s"
  shows "in_step (tryRescueAfterMissingFinishReason env s)"
proof -
  show ?thesis
    unfolding tryRescueAfterMissingFinishReason_def Let_def
    using assms
    by (auto split: outcome.splits prod.splits option.splits
          intro!: emit_rescued_in_step rescue_text_in_step)
       (simp_all add: order_defs)
qed

lemma rescue_finished:
  "finished (tryRescueAfterMissingFinishReason env s) = finished s"
  unfolding tryRescueAfterMissingFinishReason_def Let_def
  by (simp add: emit_rescued_finished rescue_text_finished
        split: outcome.splits prod.splits option.splits)

lemma close_message_ok:
  assumes "in_step s" and "finished s"
  shows "response_ok (close_message stop_reason s)"
proof -
  from stopIfOpen_closes [OF assms(1)]
  have "check_trace (- 1, None) (written (stopIfOpen s)) = Some (currentIndex s, None)"
    by (simp add: block_closed_def stopIfOpen_keeps)
  then show ?thesis
    using assms(2)
    by (simp add: response_ok_def blocks_in_order_def close_message_def Let_def
          check_trace_append stopIfOpen_keeps)
qed

lemma complete_response_ok:
  assumes "in_step s" and "finished s"
  shows "response_ok (complete_response env s)"
proof -
  let ?s1 = "tryRescueAfterMissingFinishReason env s"
  have s1: "in_step ?s1" "finished ?s1"
    using assms by (simp_all add: rescue_in_step rescue_finished)
  let ?s2 = "(switchBlockType BText ?s1)\<lparr>emittedText := fallbackText\<rparr>"
  have s2: "in_step ?s2" "currentBlockType ?s2 = Some BText" "finished ?s2"
    using switchBlockType_in_step [OF s1(1), of BText] s1(2)
    by (simp_all add: order_defs switchBlockType_finished)
  let ?s3 = "writeAnthropicSseEvent
               (ContentBlockDelta (currentIndex (switchBlockType BText ?s1)) (TextDelta fallbackText)) ?s2"
  have s3: "in_step ?s3" "finished ?s3"
  proof -
    show "in_step ?s3"
      using delta_in_step [of ?s2 "TextDelta fallbackText"] s2 by simp
    show "finished ?s3"
      using s2(3) by (simp add: writeAnthropicSseEvent_def)
  qed
  show ?thesis
    unfolding complete_response_def Let_def
    by (simp add: close_message_ok assms s1 s3)
qed

lemma finalize_ok:
  assumes "response_ok s"
  shows "response_ok (finalize env s)"
proof (cases "finished s")
  case True
  with assms show ?thesis
    by (simp add: finalize_def)
next
  case False
  with assms have step: "in_step s"
    by (simp add: response_ok_def)
  let ?r = "flush_all env (map fst (pendingToolCallsById s)) (s\<lparr>finished := True\<rparr>)"
  have "in_step (s\<lparr>finished := True\<rparr>)"
    using step by (simp add: order_defs)
  then have r: "in_step (snd ?r)" "finished (snd ?r)"
    by (simp_all add: flush_all_in_step flush_all_finished)
  then have "response_ok (complete_response env (leftover_text (snd ?r)))"
    by (intro complete_response_ok) (simp_all add: leftover_text_in_step leftover_text_finished)
  with r(1) False show ?thesis
    by (auto simp: finalize_def response_ok_def split: prod.splits)
qed

subsection \<open>Every handler, every stream\<close>

lemma error_written_ok:
  assumes "response_ok s"
  shows "response_ok (s\<lparr>written := written s @ [Sse (ErrorEvent t m), ResEnd]\<rparr>)"
    and "response_ok (s\<lparr>finished := True, written := written s @ [Sse (ErrorEvent t m), ResEnd]\<rparr>)"
    and "response_ok (s\<lparr>finished := True, firstByteArmed := False,
                        written := written s @ [Sse (ErrorEvent t m), ResEnd]\<rparr>)"
  using assms
  by (auto simp: response_ok_def in_step_def open_index_def blocks_in_order_def check_trace_append)

lemma handle_ok:
  assumes "response_ok s"
  shows "response_ok (handle env s ev)"
proof (cases ev)
  case (Chunk lines)
  let ?s1 = "s\<lparr>activityArmed := True, receivedAnyUpstreamBytes := True, firstByteArmed := False\<rparr>"
  have "response_ok ?s1 = response_ok s"
    by (simp add: response_ok_def in_step_def open_index_def)
  with assms have s1: "response_ok ?s1"
    by simp
  show ?thesis
  proof (cases "finished s")
    case True
    with s1 show ?thesis
      by (simp add: Chunk handle_def on_data_def)
  next
    case False
    with s1 have "in_step ?s1"
      by (simp add: response_ok_def)
    then have "in_step (snd (on_lines env lines ?s1))"
      by (rule on_lines_in_step)
    with False show ?thesis
      by (simp add: Chunk handle_def on_data_def response_ok_def)
  qed
next
  case StreamEnd
  have "response_ok (s\<lparr>activityArmed := False, firstByteArmed := False\<rparr>) = response_ok s"
    by (simp add: response_ok_def in_step_def open_index_def)
  with assms have "response_ok (s\<lparr>activityArmed := False, firstByteArmed := False\<rparr>)"
    by simp
  then show ?thesis
    by (simp add: StreamEnd handle_def on_end_def finalize_ok)
next
  case (StreamError msg)
  let ?s1 = "s\<lparr>activityArmed := False, firstByteArmed := False\<rparr>"
  have "response_ok ?s1 = response_ok s"
    by (simp add: response_ok_def in_step_def open_index_def)
  with assms have s1: "response_ok ?s1"
    by simp
  from s1 error_written_ok(1) [OF s1] show ?thesis
    by (simp add: StreamError handle_def on_error_def Let_def)
next
  case ActivityTimeout
  let ?s1 = "s\<lparr>activityArmed := False\<rparr>"
  have "response_ok ?s1 = response_ok s"
    by (simp add: response_ok_def in_step_def open_index_def)
  with assms have s1: "response_ok ?s1"
    by simp
  from assms s1 error_written_ok(3) [OF s1] show ?thesis
    by (simp add: ActivityTimeout handle_def on_activity_timeout_def Let_def)
next
  case FirstByteTimeout
  let ?s1 = "s\<lparr>firstByteArmed := False\<rparr>"
  have "response_ok ?s1 = response_ok s"
    by (simp add: response_ok_def in_step_def open_index_def)
  with assms have s1: "response_ok ?s1"
    by simp
  from assms s1 error_written_ok(2) [OF s1] show ?thesis
    by (simp add: FirstByteTimeout handle_def on_first_byte_timeout_def Let_def)
qed

lemma handlers_ok:
  "response_ok s \<Longrightarrow> response_ok (foldl (handle env) s events)"
  by (induction events arbitrary: s) (simp_all add: handle_ok)

lemma initial_state_ok:
  "response_ok (initial_state env)"
  by (simp add: response_ok_def initial_state_def order_defs)

lemma response_ok_in_order:
  "response_ok s \<Longrightarrow> blocks_in_order (written s)"
  by (auto simp: response_ok_def blocks_in_order_def in_step_def)

lemma written_switchBlockType:
  "written (switchBlockType nextType s) =
     written s @
     (if currentBlockType s = Some nextType then []
      else (if currentBlockType s = Some BText \<or> currentBlockType s = Some BThinking
            then [Sse (ContentBlockStop (currentIndex s))] else []) @
           (if nextType = BText then [Sse (ContentBlockStart (currentIndex s + 1) TextStart)]
            else if nextType = BThinking then [Sse (ContentBlockStart (currentIndex s + 1) ThinkingStart)]
            else []))"
  by (simp add: switchBlockType_def Let_def stopIfOpen_def stopCurrentBlock_def
        startTextBlock_def startThinkingBlock_def writeAnthropicSseEvent_def)

text \<open>
  Claim C2.  Whatever the request fixed and whatever the backend stream and the timers
  do, in any order, the content block events written to the client are in order: a
  block starts only when none is open and with an index above every index started
  before, so that indices strictly increase and none is used twice; every delta and
  every stop carries the index of the block that is open, so that the events of one
  index come as start, deltas, stop.  And switching to another block type writes the
  stop of the open block, if there is one, and then the start of the block with the next
  index.
\<close>

theorem content_block_events_in_order:
  "blocks_in_order (stream_response env events)
   \<and> written (switchBlockType nextType s) =
       written s @
       (if currentBlockType s = Some nextType then []
        else (if currentBlockType s = Some BText \<or> currentBlockType s = Some BThinking
              then [Sse (ContentBlockStop (currentIndex s))] else []) @
             (if nextType = BText then [Sse (ContentBlockStart (currentIndex s + 1) TextStart)]
              else if nextType = BThinking
              then [Sse (ContentBlockStart (currentIndex s + 1) ThinkingStart)]
              else []))"
proof
  show "blocks_in_order (stream_response env events)"
    unfolding stream_response_def
    by (intro response_ok_in_order handlers_ok initial_state_ok)
next
  show "written (switchBlockType nextType s) =
       written s @
       (if currentBlockType s = Some nextType then []
        else (if currentBlockType s = Some BText \<or> currentBlockType s = Some BThinking
              then [Sse (ContentBlockStop (currentIndex s))] else []) @
             (if nextType = BText then [Sse (ContentBlockStart (currentIndex s + 1) TextStart)]
              else if nextType = BThinking
              then [Sse (ContentBlockStart (currentIndex s + 1) ThinkingStart)]
              else []))"
    by (rule written_switchBlockType)
qed

theorem content_block_events_in_order_witness:
  \<open>blocks_in_order
      (stream_response plain_env [Chunk [Data hello_payload], Chunk [Data grep_payload], StreamEnd])
   \<and> stream_response plain_env [Chunk [Data hello_payload], Chunk [Data grep_payload], StreamEnd] =
       [Sse (MessageStart ''msg_1'' ''claude-x''),
        Sse (ContentBlockStart 0 TextStart),
        Sse (ContentBlockDelta 0 (TextDelta ''Hello'')),
        Sse (ContentBlockStop 0),
        Sse (ContentBlockStart 1 (ToolUseStart ''toolu_0'' (JStr ''Grep''))),
        Sse (ContentBlockDelta 1 (InputJsonDelta ''{"path":".","pattern":"foo"}'')),
        Sse (ContentBlockStop 1),
        Sse (MessageDelta ''tool_use''),
        Sse MessageStop,
        ResEnd]\<close>
proof
  show "blocks_in_order
      (stream_response plain_env [Chunk [Data hello_payload], Chunk [Data grep_payload], StreamEnd])"
    using content_block_events_in_order
      [of plain_env "[Chunk [Data hello_payload], Chunk [Data grep_payload], StreamEnd]"]
    by (rule conjunct1)
next
  show \<open>stream_response plain_env [Chunk [Data hello_payload], Chunk [Data grep_payload], StreamEnd] =
       [Sse (MessageStart ''msg_1'' ''claude-x''),
        Sse (ContentBlockStart 0 TextStart),
        Sse (ContentBlockDelta 0 (TextDelta ''Hello'')),
        Sse (ContentBlockStop 0),
        Sse (ContentBlockStart 1 (ToolUseStart ''toolu_0'' (JStr ''Grep''))),
        Sse (ContentBlockDelta 1 (InputJsonDelta ''{"path":".","pattern":"foo"}'')),
        Sse (ContentBlockStop 1),
        Sse (MessageDelta ''tool_use''),
        Sse MessageStop,
        ResEnd]\<close>
    by code_simp
qed

end
